theory Spec2Isabelle
  imports Complex_Main "HOL-Library.Log_Nat"
begin

section \<open>Reservoir pedigree diagram: layout, connectors, text fitting and viewport\<close>

text \<open>
  The component \<^verbatim>\<open>ReservoirGraph\<close> lays a hub-and-satellites graph out at fixed
  coordinates, draws elbow connectors and a wrapped hub label, and offers zoom buttons.
  A JavaScript number is an IEEE double, which is a rational number: numbers have type
  \<^typ>\<open>rat\<close>. The zoom arithmetic rounds every result to the nearest double
  (\<open>double\<close> below). Every coordinate the layout computes is a multiple of 10 bounded by
  the array lengths, and the midpoint of two of them a multiple of 5: exact in doubles,
  so the layout and the connectors compute over the rationals without rounding. The
  text fitter's line height and line positions are computed over the rationals too; in
  doubles they differ from that in the last bits at most, and the comparison with the
  hub's \<^verbatim>\<open>maxHeight\<close> = 60 comes out the same (the product of line count, font size
  and 1.2 is 60 only for 5 lines at size 10, where the doubles give 60 as well, and is at
  least 1.2 away from 60 otherwise).
\<close>

subsection \<open>Double arithmetic\<close>

text \<open>
  Rounding to the nearest double, ties to even: a double is an integer multiple of
  \<open>2 powi (e - 52)\<close>, where \<open>2 powi e\<close> is the power of two at or below the number's
  magnitude and \<open>e\<close> is at least \<open>- 1022\<close> (below that the numbers are subnormal and
  the step stays \<open>2 powi (- 1074)\<close>). Overflow to \<^verbatim>\<open>Infinity\<close>, from \<open>2 ^ 1024\<close> on,
  is not modelled.
\<close>

definition rne :: "rat \<Rightarrow> int" where
  "rne y = (let f = \<lfloor>y\<rfloor>; d = y - of_int f
            in if d < 1 / 2 then f else if 1 / 2 < d then f + 1
               else if even f then f else f + 1)"

text \<open>\<open>ilog2 x\<close> is the \<open>e\<close> with \<open>2 powi e \<le> x < 2 powi (e + 1)\<close>, for \<open>x > 0\<close>.\<close>

definition ilog2 :: "rat \<Rightarrow> int" where
  "ilog2 x = (let p = fst (quotient_of x); q = snd (quotient_of x);
                  d = int (floorlog 2 (nat p)) - int (floorlog 2 (nat q))
              in if 2 powi d \<le> x then d else d - 1)"

definition double :: "rat \<Rightarrow> rat" where
  "double x = (if x = 0 then 0
     else (let e = max (ilog2 \<bar>x\<bar>) (- 1022); u = 2 powi (e - 52)
           in of_int (rne (x / u)) * u))"

text \<open>The operators \<^verbatim>\<open>*\<close>, \<^verbatim>\<open>/\<close> and \<^verbatim>\<open>-\<close> on doubles.\<close>

definition dmul :: "rat \<Rightarrow> rat \<Rightarrow> rat" where
  "dmul a b = double (a * b)"

definition ddiv :: "rat \<Rightarrow> rat \<Rightarrow> rat" where
  "ddiv a b = double (a / b)"

definition dsub :: "rat \<Rightarrow> rat \<Rightarrow> rat" where
  "dsub a b = double (a - b)"

subsection \<open>Constants\<close>

text \<open>
  The tables \<^verbatim>\<open>LAYOUT\<close> and \<^verbatim>\<open>ZOOM\<close>. A decimal literal is the double nearest
  to it; 0.5 and the integers are doubles themselves.
\<close>

definition NODE_SPACING :: rat where "NODE_SPACING = 40"
definition HORIZONTAL_SPACING :: rat where "HORIZONTAL_SPACING = 220"
definition PADDING :: rat where "PADDING = 100"
definition MAIN_RECT_WIDTH :: rat where "MAIN_RECT_WIDTH = 180"
definition MAIN_RECT_HEIGHT :: rat where "MAIN_RECT_HEIGHT = 80"
definition MAIN_RECT_PADDING :: rat where "MAIN_RECT_PADDING = 10"

definition MIN_SCALE :: rat where "MIN_SCALE = 1 / 2"
definition MAX_SCALE :: rat where "MAX_SCALE = 3"
definition INITIAL_SCALE :: rat where "INITIAL_SCALE = double (8 / 10)"
definition ZOOM_IN_FACTOR :: rat where "ZOOM_IN_FACTOR = double (13 / 10)"
definition ZOOM_OUT_FACTOR :: rat where "ZOOM_OUT_FACTOR = double (7 / 10)"

subsection \<open>Viewport: the zoom behaviour and the three button handlers\<close>

text \<open>
  The zoom state is d3-zoom's transform \<^verbatim>\<open>{k, x, y}\<close>. The handlers of the component
  call three operations of that library, modelled here by their documented results:
  \<^verbatim>\<open>d3.zoomIdentity\<close> is the transform with \<^verbatim>\<open>k = 1, x = 0, y = 0\<close>;
  \<^verbatim>\<open>t.scale(s)\<close> multiplies \<^verbatim>\<open>k\<close> by \<^verbatim>\<open>s\<close>;
  \<^verbatim>\<open>zoom.transform\<close> installs the given transform as it is (the scale extent
  is not applied to it); \<^verbatim>\<open>zoom.scaleBy\<close> multiplies the scale (\<^verbatim>\<open>k0 * k\<close>), clamps
  the product to the scale extent
  (\<^verbatim>\<open>Math.max(scaleExtent[0], Math.min(scaleExtent[1], k))\<close>) and keeps the centre
  \<open>p0\<close> of the viewport extent fixed: with \<^verbatim>\<open>p1 = [(p0[0] - x) / k0, (p0[1] - y) / k0]\<close>
  the new translation is \<^verbatim>\<open>p0 - p1 * k\<close> (the translate extent is left at its
  unbounded default and constrains nothing). Each product, quotient and difference is
  a double operation. A transition ends at the transform it was called with; only that
  end state is modelled.
\<close>

record transform =
  tk :: rat
  tx :: rat
  ty :: rat

definition zoomIdentity :: transform where
  "zoomIdentity = \<lparr>tk = 1, tx = 0, ty = 0\<rparr>"

definition t_scale :: "transform \<Rightarrow> rat \<Rightarrow> transform" where
  "t_scale t s = t\<lparr>tk := dmul (tk t) s\<rparr>"

text \<open>
  The component's own zoom state: the transform held by the zoom behaviour, and the React
  state \<^verbatim>\<open>zoomLevel\<close> that the \<^verbatim>\<open>zoom\<close> listener sets to \<^verbatim>\<open>event.transform.k\<close>.
\<close>

record viewport =
  zoom :: transform
  zoomLevel :: rat

definition on_zoom :: "transform \<Rightarrow> viewport" where
  "on_zoom t = \<lparr>zoom = t, zoomLevel = tk t\<rparr>"

definition zoom_transform :: "viewport \<Rightarrow> transform \<Rightarrow> viewport" where
  "zoom_transform v t = on_zoom t"

definition clamp_scale :: "rat \<Rightarrow> rat" where
  "clamp_scale s = max MIN_SCALE (min MAX_SCALE s)"

definition zoom_scaleBy :: "rat \<times> rat \<Rightarrow> viewport \<Rightarrow> rat \<Rightarrow> viewport" where
  "zoom_scaleBy p0 v s =
     (let t0 = zoom v;
          p1x = ddiv (dsub (fst p0) (tx t0)) (tk t0);
          p1y = ddiv (dsub (snd p0) (ty t0)) (tk t0);
          k1 = clamp_scale (dmul (tk t0) s)
      in on_zoom \<lparr>tk = k1, tx = dsub (fst p0) (dmul p1x k1),
                  ty = dsub (snd p0) (dmul p1y k1)\<rparr>)"

text \<open>
  The effect installs the behaviour and sets the initial zoom
  (\<^verbatim>\<open>svg.call(zoomBehavior.transform, d3.zoomIdentity.scale(ZOOM.INITIAL_SCALE))\<close>).
  Before it has run, \<^verbatim>\<open>zoomBehaviorRef.current\<close> is null: the state is \<open>None\<close> and
  every handler returns without doing anything.
\<close>

definition mount :: "viewport option" where
  "mount = Some (on_zoom (t_scale zoomIdentity INITIAL_SCALE))"

definition handleZoomIn :: "rat \<times> rat \<Rightarrow> viewport option \<Rightarrow> viewport option" where
  "handleZoomIn p0 st =
     (case st of None \<Rightarrow> None | Some v \<Rightarrow> Some (zoom_scaleBy p0 v ZOOM_IN_FACTOR))"

definition handleZoomOut :: "rat \<times> rat \<Rightarrow> viewport option \<Rightarrow> viewport option" where
  "handleZoomOut p0 st =
     (case st of None \<Rightarrow> None | Some v \<Rightarrow> Some (zoom_scaleBy p0 v ZOOM_OUT_FACTOR))"

definition handleResetZoom :: "viewport option \<Rightarrow> viewport option" where
  "handleResetZoom st =
     (case st of None \<Rightarrow> None | Some v \<Rightarrow> Some (zoom_transform v zoomIdentity))"

text \<open>A sequence of button presses, run from the left.\<close>

datatype button = ZoomIn | ZoomOut | ResetZoom

fun press :: "rat \<times> rat \<Rightarrow> button \<Rightarrow> viewport option \<Rightarrow> viewport option" where
  "press p0 ZoomIn st = handleZoomIn p0 st"
| "press p0 ZoomOut st = handleZoomOut p0 st"
| "press p0 ResetZoom st = handleResetZoom st"

definition presses :: "rat \<times> rat \<Rightarrow> button list \<Rightarrow> viewport option \<Rightarrow> viewport option" where
  "presses p0 bs st = fold (press p0) bs st"

subsection \<open>Text fitter: word wrap and font-size search for the hub label\<close>

text \<open>
  \<^verbatim>\<open>text.split(/\s+/)\<close>: the pieces between maximal runs of white space. A string that
  starts (ends) with white space gives an empty first (last) piece, and the empty string
  gives one empty piece. A JavaScript string is a sequence of UTF-16 code units, here
  integers, and \<^verbatim>\<open>\s\<close> matches the code units of white space and of the line
  terminators: U+0009 to U+000D, U+0020, U+00A0, U+1680, U+2000 to U+200A, U+2028,
  U+2029, U+202F, U+205F, U+3000 and U+FEFF. \<open>js\<close> turns an ASCII literal into code
  units.
\<close>

type_synonym jstring = "int list"

definition js :: "string \<Rightarrow> jstring" where
  "js s = map of_char s"

definition is_space :: "int \<Rightarrow> bool" where
  "is_space c = ((0x0009 \<le> c \<and> c \<le> 0x000D) \<or> c = 0x0020 \<or> c = 0x00A0 \<or> c = 0x1680
      \<or> (0x2000 \<le> c \<and> c \<le> 0x200A) \<or> c = 0x2028 \<or> c = 0x2029 \<or> c = 0x202F
      \<or> c = 0x205F \<or> c = 0x3000 \<or> c = 0xFEFF)"

function split_ws :: "jstring \<Rightarrow> jstring \<Rightarrow> jstring list" where
  "split_ws cur [] = [cur]"
| "split_ws cur (c # cs) =
     (if is_space c then cur # split_ws [] (dropWhile is_space cs)
      else split_ws (cur @ [c]) cs)"
  by pat_completeness auto
termination
  by (relation "measure (\<lambda>(cur, cs). length cs)")
     (auto simp: length_dropWhile_le less_Suc_eq_le)

definition split_whitespace :: "jstring \<Rightarrow> jstring list" where
  "split_whitespace text = split_ws [] text"

text \<open>
  The measurement is the one thing the fitter does not own: \<open>m line fontSize\<close> stands for
  \<^verbatim>\<open>getComputedTextLength()\<close> of the hidden text element after its font size and
  text were set.
\<close>

type_synonym measurement = "jstring \<Rightarrow> int \<Rightarrow> rat"

text \<open>
  The body of \<^verbatim>\<open>words.forEach\<close> in \<^verbatim>\<open>wrapText\<close>, on the pair
  \<^verbatim>\<open>(lines, currentLine)\<close>. An empty string is falsy, and \<open>[0x20]\<close> is the space
  between \<^verbatim>\<open>currentLine\<close> and \<^verbatim>\<open>word\<close>.
\<close>

definition wrap_word ::
  "measurement \<Rightarrow> rat \<Rightarrow> int \<Rightarrow> jstring \<Rightarrow> jstring list \<times> jstring
    \<Rightarrow> jstring list \<times> jstring"
where
  "wrap_word m maxWidth fontSize word st =
     (let currentLine = snd st;
          testLine = (if currentLine \<noteq> [] then currentLine @ [0x20] @ word else word);
          width = m testLine fontSize
      in if width > maxWidth \<and> currentLine \<noteq> [] then (fst st @ [currentLine], word)
         else (fst st, testLine))"

definition wrapText :: "measurement \<Rightarrow> jstring \<Rightarrow> rat \<Rightarrow> int \<Rightarrow> jstring list" where
  "wrapText m text maxWidth fontSize =
     (let st = fold (wrap_word m maxWidth fontSize) (split_whitespace text) ([], [])
      in if snd st \<noteq> [] then fst st @ [snd st] else fst st)"

text \<open>
  The loop \<^verbatim>\<open>while (fontSize >= 10)\<close> on the variables \<^verbatim>\<open>fontSize\<close>, \<^verbatim>\<open>lines\<close>
  and \<^verbatim>\<open>lineHeight\<close>; the result is their value when the loop is left, by \<^verbatim>\<open>break\<close>
  or by the loop condition.
\<close>

function fit_loop ::
  "measurement \<Rightarrow> jstring \<Rightarrow> rat \<Rightarrow> rat \<Rightarrow> int \<Rightarrow> jstring list \<Rightarrow> rat
    \<Rightarrow> int \<times> jstring list \<times> rat"
where
  "fit_loop m label maxWidth maxHeight fontSize lines lineHeight =
     (if fontSize \<ge> 10 then
        (let lines1 = wrapText m label maxWidth fontSize;
             lineHeight1 = of_int fontSize * (12 / 10);
             totalHeight = of_nat (length lines1) * lineHeight1
         in if totalHeight \<le> maxHeight then (fontSize, lines1, lineHeight1)
            else fit_loop m label maxWidth maxHeight (fontSize - 1) lines1 lineHeight1)
      else (fontSize, lines, lineHeight))"
  by pat_completeness auto
termination
  by (relation "measure (\<lambda>(m, label, maxWidth, maxHeight, fontSize, lines, lineHeight).
        nat (fontSize - 9))") auto

declare fit_loop.simps [simp del]

text \<open>
  The text elements appended for the hub label (\<^verbatim>\<open>lines.forEach\<close>): each carries the
  attribute \<^verbatim>\<open>font-size\<close> with the final value of \<^verbatim>\<open>fontSize\<close>.
\<close>

record text_element =
  text_x :: rat
  text_y :: rat
  font_size :: int
  content :: jstring

definition draw_hub_text :: "measurement \<Rightarrow> jstring \<Rightarrow> text_element list" where
  "draw_hub_text m label =
     (let maxWidth = MAIN_RECT_WIDTH - MAIN_RECT_PADDING * 2;
          maxHeight = MAIN_RECT_HEIGHT - MAIN_RECT_PADDING * 2;
          r = fit_loop m label maxWidth maxHeight 16 [] 0;
          fontSize = fst r;
          lines = fst (snd r);
          lineHeight = snd (snd r);
          totalTextHeight = of_nat (length lines) * lineHeight;
          startY = - totalTextHeight / 2 + lineHeight * (8 / 10)
      in map (\<lambda>(i, line). \<lparr>text_x = 0, text_y = startY + of_nat i * lineHeight,
                font_size = fontSize, content = line\<rparr>) (enumerate 0 lines))"

text \<open>A measurement for examples: every character is one em wide.\<close>

definition em_width :: measurement where
  "em_width line fontSize = of_nat (length line) * of_int fontSize"

text \<open>
  The wrapping rule in the words of the specification, as a recursion over the words:
  words are accumulated into the current line while the measured width stays within
  \<open>maxWidth\<close>; a word whose addition would exceed it closes the line and starts the
  next one. The first word of a line is taken as it is, and a line that stayed empty is
  not a line.
\<close>

fun greedy_wrap :: "measurement \<Rightarrow> rat \<Rightarrow> int \<Rightarrow> jstring \<Rightarrow> jstring list \<Rightarrow> jstring list" where
  "greedy_wrap m maxWidth fontSize cur [] = (if cur = [] then [] else [cur])"
| "greedy_wrap m maxWidth fontSize cur (w # ws) =
     (if cur = [] then greedy_wrap m maxWidth fontSize w ws
      else if m (cur @ [0x20] @ w) fontSize \<le> maxWidth
      then greedy_wrap m maxWidth fontSize (cur @ [0x20] @ w) ws
      else cur # greedy_wrap m maxWidth fontSize w ws)"

subsection \<open>Graph data in the store\<close>

text \<open>
  The component receives \<^verbatim>\<open>data: IGraphData\<close>, arrays of references to node and link
  objects that the caller owns, and works on \<^verbatim>\<open>Object.create\<close> copies of them. To tell
  the caller's objects from the copies, objects live in a store: an address is an index
  into the list of objects, and a fresh object is appended. An object has its own
  properties (\<open>None\<close>: the object has no such own property) and a prototype.
\<close>

datatype ntype = main_reservoir | inflow | outflow | project

record obj =
  proto :: "nat option"
  own_id :: "string option"
  own_label :: "string option"
  own_type :: "ntype option"
  own_source :: "string option"
  own_target :: "string option"
  own_fx :: "rat option"
  own_fy :: "rat option"

type_synonym store = "obj list"

record graph_data =
  data_nodes :: "nat list"
  data_links :: "nat list"

text \<open>
  Reading a property: the object's own property if it has one, else its prototype's, and
  so on along the chain; \<open>None\<close> is \<^verbatim>\<open>undefined\<close>. The chain has no cycle, so it is no
  longer than the store.
\<close>

fun lookup :: "nat \<Rightarrow> (obj \<Rightarrow> 'a option) \<Rightarrow> store \<Rightarrow> nat \<Rightarrow> 'a option" where
  "lookup 0 field h a = None"
| "lookup (Suc n) field h a =
     (case field (h ! a) of
        Some v \<Rightarrow> Some v
      | None \<Rightarrow> (case proto (h ! a) of None \<Rightarrow> None | Some p \<Rightarrow> lookup n field h p))"

definition get :: "(obj \<Rightarrow> 'a option) \<Rightarrow> store \<Rightarrow> nat \<Rightarrow> 'a option" where
  "get field h a = lookup (length h) field h a"

text \<open>
  Assigning \<^verbatim>\<open>node.fx = v\<close>: no object here has a setter or a read-only property,
  so the assignment makes \<^verbatim>\<open>fx\<close> an own property of \<^verbatim>\<open>node\<close> itself.
\<close>

definition set_fx :: "store \<Rightarrow> nat \<Rightarrow> rat \<Rightarrow> store" where
  "set_fx h a v = h[a := (h ! a)\<lparr>own_fx := Some v\<rparr>]"

definition set_fy :: "store \<Rightarrow> nat \<Rightarrow> rat \<Rightarrow> store" where
  "set_fy h a v = h[a := (h ! a)\<lparr>own_fy := Some v\<rparr>]"

text \<open>\<^verbatim>\<open>Object.create(d)\<close>: a new object with prototype \<open>d\<close> and no own property.\<close>

definition created :: "nat \<Rightarrow> obj" where
  "created d = \<lparr>proto = Some d, own_id = None, own_label = None, own_type = None,
     own_source = None, own_target = None, own_fx = None, own_fy = None\<rparr>"

definition Object_create :: "store \<Rightarrow> nat \<Rightarrow> store \<times> nat" where
  "Object_create h d = (h @ [created d], length h)"

text \<open>\<^verbatim>\<open>ds.map((d) => Object.create(d))\<close>.\<close>

fun map_create :: "store \<Rightarrow> nat list \<Rightarrow> store \<times> nat list" where
  "map_create h [] = (h, [])"
| "map_create h (d # ds) =
     (let r1 = Object_create h d; r2 = map_create (fst r1) ds
      in (fst r2, snd r1 # snd r2))"

subsection \<open>Layout\<close>

text \<open>
  The five \<^verbatim>\<open>forEach\<close> loops that place a column all have one body:
  \<^verbatim>\<open>node.fx = x; node.fy = startY + i * LAYOUT.NODE_SPACING\<close>.
\<close>

fun place_column :: "store \<Rightarrow> nat list \<Rightarrow> nat \<Rightarrow> rat \<Rightarrow> rat \<Rightarrow> store" where
  "place_column h [] i x startY = h"
| "place_column h (node # rest) i x startY =
     place_column (set_fy (set_fx h node x) node (startY + of_nat i * NODE_SPACING))
       rest (Suc i) x startY"

definition nodes_of_type :: "store \<Rightarrow> ntype \<Rightarrow> nat list \<Rightarrow> nat list" where
  "nodes_of_type h t ns = filter (\<lambda>n. get own_type h n = Some t) ns"

record layout_result =
  l_store :: store
  l_nodes :: "nat list"
  l_links :: "nat list"
  l_minX :: rat
  l_minY :: rat
  l_maxX :: rat
  l_maxY :: rat

text \<open>
  The block "Position main reservoir": \<^verbatim>\<open>mainNode\<close> is the first hub found, or
  \<^verbatim>\<open>undefined\<close>.
\<close>

definition place_main :: "store \<Rightarrow> nat option \<Rightarrow> rat \<Rightarrow> rat \<Rightarrow> store" where
  "place_main h mainNode x y =
     (case mainNode of None \<Rightarrow> h | Some mn \<Rightarrow> set_fy (set_fx h mn x) mn y)"

text \<open>
  The block "Position outflows and projects on the right side": the store after its
  assignments, and the final values of \<^verbatim>\<open>outflowStartY\<close> and \<^verbatim>\<open>projectStartY\<close>
  (both start as \<^verbatim>\<open>contentCenterY\<close>).
\<close>

definition place_right :: "store \<Rightarrow> nat list \<Rightarrow> nat list \<Rightarrow> store \<times> rat \<times> rat" where
  "place_right h outflowNodes projectNodes =
     (let contentCenterY = 0;
          rightX = 0;
          hasOutflows = (length outflowNodes > 0);
          hasProjects = (length projectNodes > 0)
      in if hasOutflows \<and> hasProjects then
           (let outflowConnectorY = contentCenterY - MAIN_RECT_HEIGHT / 4;
                projectConnectorY = contentCenterY + MAIN_RECT_HEIGHT / 4;
                outflowsHeight = (of_nat (length outflowNodes) - 1) * NODE_SPACING;
                outflowStartY = outflowConnectorY - outflowsHeight;
                projectStartY = projectConnectorY;
                h1 = place_column h outflowNodes 0 (rightX + HORIZONTAL_SPACING) outflowStartY;
                h2 = place_column h1 projectNodes 0 (rightX + HORIZONTAL_SPACING) projectStartY
            in (h2, outflowStartY, projectStartY))
         else if hasOutflows then
           (let outflowStartY =
                  contentCenterY - ((of_nat (length outflowNodes) - 1) * NODE_SPACING) / 2
            in (place_column h outflowNodes 0 (rightX + HORIZONTAL_SPACING) outflowStartY,
                outflowStartY, contentCenterY))
         else if hasProjects then
           (let projectStartY =
                  contentCenterY - ((of_nat (length projectNodes) - 1) * NODE_SPACING) / 2
            in (place_column h projectNodes 0 (rightX + HORIZONTAL_SPACING) projectStartY,
                contentCenterY, projectStartY))
         else (h, contentCenterY, contentCenterY))"

text \<open>
  The effect from the two \<^verbatim>\<open>Object.create\<close> maps to the bounds of the view box. The
  variables carry the names of the source; \<open>h1\<close> to \<open>h4\<close> are the store after each
  block of assignments.
\<close>

definition layout :: "store \<Rightarrow> graph_data \<Rightarrow> layout_result" where
  "layout h0 data =
     (let c1 = map_create h0 (data_nodes data); nodes = snd c1;
          c2 = map_create (fst c1) (data_links data); links = snd c2;
          h1 = fst c2;
          inflowNodes = nodes_of_type h1 inflow nodes;
          outflowNodes = nodes_of_type h1 outflow nodes;
          projectNodes = nodes_of_type h1 project nodes;
          mainNode = find (\<lambda>n. get own_type h1 n = Some main_reservoir) nodes;
          contentCenterX = 0;
          contentCenterY = 0;
          leftX = contentCenterX;
          rightX = contentCenterX;
          h2 = place_main h1 mainNode contentCenterX contentCenterY;
          inflowStartY =
            contentCenterY - ((of_nat (length inflowNodes) - 1) * NODE_SPACING) / 2;
          h3 = place_column h2 inflowNodes 0 (leftX - HORIZONTAL_SPACING) inflowStartY;
          r = place_right h3 outflowNodes projectNodes;
          h4 = fst r;
          outflowStartY = fst (snd r);
          projectStartY = snd (snd r);
          minX = leftX - HORIZONTAL_SPACING - PADDING;
          maxX = rightX + HORIZONTAL_SPACING + 200;
          minY = min inflowStartY outflowStartY - PADDING;
          maxY = max (inflowStartY + (of_nat (length inflowNodes) - 1) * NODE_SPACING)
                     (projectStartY + (of_nat (length projectNodes) - 1) * NODE_SPACING)
                 + PADDING
      in \<lparr>l_store = h4, l_nodes = nodes, l_links = links,
          l_minX = minX, l_minY = minY, l_maxX = maxX, l_maxY = maxY\<rparr>)"

text \<open>The store once both arrays are copied, before the first assignment.\<close>

abbreviation copies :: "store \<Rightarrow> graph_data \<Rightarrow> store" where
  "copies h0 data \<equiv> h0 @ map created (data_nodes data) @ map created (data_links data)"

subsection \<open>Connectors\<close>

text \<open>The table \<^verbatim>\<open>COLOR_MAP\<close>.\<close>

record color =
  fill :: string
  stroke :: string
  legend_label :: string

fun COLOR_MAP :: "ntype \<Rightarrow> color" where
  "COLOR_MAP main_reservoir =
     \<lparr>fill = ''#5B7FDB'', stroke = ''#4A6BC5'', legend_label = ''Main Reservoir''\<rparr>"
| "COLOR_MAP inflow =
     \<lparr>fill = ''#E88BA8'', stroke = ''#D67A97'', legend_label = ''Inflows''\<rparr>"
| "COLOR_MAP outflow =
     \<lparr>fill = ''#4DB8D8'', stroke = ''#3CA7C7'', legend_label = ''Outflows''\<rparr>"
| "COLOR_MAP project =
     \<lparr>fill = ''#4DB89A'', stroke = ''#3CA789'', legend_label = ''Projects''\<rparr>"

text \<open>
  A coordinate read from a node is a number or \<^verbatim>\<open>undefined\<close>, and arithmetic on
  \<^verbatim>\<open>undefined\<close> gives \<^verbatim>\<open>NaN\<close>; \<open>None\<close> stands for both.
\<close>

definition num_add :: "rat option \<Rightarrow> rat \<Rightarrow> rat option" where
  "num_add a c = map_option (\<lambda>v. v + c) a"

definition num_mid :: "rat option \<Rightarrow> rat option \<Rightarrow> rat option" where
  "num_mid a b = (case a of None \<Rightarrow> None
     | Some u \<Rightarrow> (case b of None \<Rightarrow> None | Some v \<Rightarrow> Some ((u + v) / 2)))"

text \<open>
  A path element: the points of its \<^verbatim>\<open>d\<close> attribute (\<^verbatim>\<open>M p0 L p1 L p2 L p3\<close>) and
  its \<^verbatim>\<open>stroke\<close>.
\<close>

record svg_path =
  path_points :: "(rat option \<times> rat option) list"
  path_stroke :: string

datatype error = TypeError

text \<open>
  The body of \<^verbatim>\<open>links.forEach\<close>: \<open>Inr None\<close> is the early \<^verbatim>\<open>return\<close>, \<open>Inr (Some p)\<close>
  the path appended to the link group. \<^verbatim>\<open>color.stroke\<close> throws when \<^verbatim>\<open>COLOR_MAP\<close>
  has no entry for the type, which is when the type is \<^verbatim>\<open>undefined\<close>.
\<close>

definition draw_link :: "store \<Rightarrow> nat list \<Rightarrow> nat \<Rightarrow> error + svg_path option" where
  "draw_link h nodes link =
     (case find (\<lambda>n. get own_id h n = get own_source h link) nodes of
        None \<Rightarrow> Inr None
      | Some source \<Rightarrow>
     (case find (\<lambda>n. get own_id h n = get own_target h link) nodes of
        None \<Rightarrow> Inr None
      | Some target \<Rightarrow>
          (let targetType =
                 (if get own_type h target = Some main_reservoir
                  then (if get own_type h source = Some inflow then Some inflow
                        else get own_type h source)
                  else get own_type h target);
               x1 = (if get own_type h source = Some main_reservoir
                     then num_add (get own_fx h source) (MAIN_RECT_WIDTH / 2)
                     else get own_fx h source);
               y1 = (if get own_type h source = Some main_reservoir
                     then (if get own_type h target = Some outflow
                           then num_add (get own_fy h source) (- (MAIN_RECT_HEIGHT / 4))
                           else if get own_type h target = Some project
                           then num_add (get own_fy h source) (MAIN_RECT_HEIGHT / 4)
                           else get own_fy h source)
                     else get own_fy h source);
               x2 = get own_fx h target;
               y2 = get own_fy h target;
               midX = num_mid x1 x2;
               pathData = [(x1, y1), (midX, y1), (midX, y2), (x2, y2)]
           in case targetType of
                None \<Rightarrow> Inl TypeError
              | Some tt \<Rightarrow>
                  Inr (Some \<lparr>path_points = pathData, path_stroke = stroke (COLOR_MAP tt)\<rparr>))))"

text \<open>\<^verbatim>\<open>links.forEach\<close>; an exception ends the loop and the effect.\<close>

fun links_forEach ::
  "store \<Rightarrow> nat list \<Rightarrow> nat list \<Rightarrow> svg_path list \<Rightarrow> error + svg_path list"
where
  "links_forEach h nodes [] linkGroup = Inr linkGroup"
| "links_forEach h nodes (link # rest) linkGroup =
     (case draw_link h nodes link of
        Inl e \<Rightarrow> Inl e
      | Inr None \<Rightarrow> links_forEach h nodes rest linkGroup
      | Inr (Some p) \<Rightarrow> links_forEach h nodes rest (linkGroup @ [p]))"

subsection \<open>Example graphs\<close>

text \<open>Node and link objects as an object literal makes them.\<close>

definition node_obj :: "string \<Rightarrow> string \<Rightarrow> ntype \<Rightarrow> obj" where
  "node_obj i l t = \<lparr>proto = None, own_id = Some i, own_label = Some l, own_type = Some t,
     own_source = None, own_target = None, own_fx = None, own_fy = None\<rparr>"

definition link_obj :: "string \<Rightarrow> string \<Rightarrow> obj" where
  "link_obj s t = \<lparr>proto = None, own_id = None, own_label = None, own_type = None,
     own_source = Some s, own_target = Some t, own_fx = None, own_fy = None\<rparr>"

text \<open>\<^verbatim>\<open>mixedData\<close> of the test suite: a hub, two inflows, two outflows, two projects.\<close>

definition mixed_store :: store where
  "mixed_store =
     [node_obj ''main'' ''Main Reservoir'' main_reservoir,
      node_obj ''inflow1'' ''Inflow 1'' inflow,
      node_obj ''inflow2'' ''Inflow 2'' inflow,
      node_obj ''outflow1'' ''Outflow 1'' outflow,
      node_obj ''outflow2'' ''Outflow 2'' outflow,
      node_obj ''project1'' ''Project 1'' project,
      node_obj ''project2'' ''Project 2'' project,
      link_obj ''inflow1'' ''main'',
      link_obj ''inflow2'' ''main'',
      link_obj ''main'' ''outflow1'',
      link_obj ''main'' ''outflow2'',
      link_obj ''main'' ''project1'',
      link_obj ''main'' ''project2'']"

definition mixed_data :: graph_data where
  "mixed_data = \<lparr>data_nodes = [0, 1, 2, 3, 4, 5, 6], data_links = [7, 8, 9, 10, 11, 12]\<rparr>"

definition mixed_layout :: layout_result where
  "mixed_layout = layout mixed_store mixed_data"

text \<open>
  A hub and one inflow, with a link from \<^verbatim>\<open>ghost\<close>, which is no node, before the link
  of the inflow.
\<close>

definition ghost_store :: store where
  "ghost_store =
     [node_obj ''hub_1'' ''Emerald Lake'' main_reservoir,
      node_obj ''inflow_1_0'' ''Stone Creek'' inflow,
      link_obj ''ghost'' ''hub_1'',
      link_obj ''inflow_1_0'' ''hub_1'']"

definition ghost_data :: graph_data where
  "ghost_data = \<lparr>data_nodes = [0, 1], data_links = [2, 3]\<rparr>"

definition ghost_layout :: layout_result where
  "ghost_layout = layout ghost_store ghost_data"

text \<open>
  What \<^verbatim>\<open>parseReservoirConfig\<close> returns for a reservoir with six outflows and no
  inflow or project.
\<close>

definition six_outflows_store :: store where
  "six_outflows_store =
     [node_obj ''reservoir_1'' ''Emerald Lake'' main_reservoir,
      node_obj ''outflow_1_0'' ''Sunset Basin'' outflow,
      node_obj ''outflow_1_1'' ''Valley Canal'' outflow,
      node_obj ''outflow_1_2'' ''Stone Creek'' outflow,
      node_obj ''outflow_1_3'' ''North Channel'' outflow,
      node_obj ''outflow_1_4'' ''South Channel'' outflow,
      node_obj ''outflow_1_5'' ''Mill Race'' outflow,
      link_obj ''reservoir_1'' ''outflow_1_0'',
      link_obj ''reservoir_1'' ''outflow_1_1'',
      link_obj ''reservoir_1'' ''outflow_1_2'',
      link_obj ''reservoir_1'' ''outflow_1_3'',
      link_obj ''reservoir_1'' ''outflow_1_4'',
      link_obj ''reservoir_1'' ''outflow_1_5'']"

definition six_outflows_data :: graph_data where
  "six_outflows_data =
     \<lparr>data_nodes = [0, 1, 2, 3, 4, 5, 6], data_links = [7, 8, 9, 10, 11, 12]\<rparr>"

definition six_outflows_layout :: layout_result where
  "six_outflows_layout = layout six_outflows_store six_outflows_data"

section \<open>Double arithmetic properties\<close>

lemma rne_error: "\<bar>of_int (rne y) - y\<bar> \<le> 1 / 2"
proof -
  have "of_int \<lfloor>y\<rfloor> \<le> y" "y < of_int \<lfloor>y\<rfloor> + 1" by linarith+
  then show ?thesis by (auto simp: rne_def Let_def)
qed

lemma rne_eqI:
  assumes "\<bar>y - of_int n\<bar> < 1 / 2"
  shows "rne y = n"
proof -
  have "\<bar>of_int (rne y) - y\<bar> \<le> 1 / 2" by (rule rne_error)
  with assms have "\<bar>(of_int (rne y) :: rat) - of_int n\<bar> < 1" by linarith
  then have "\<bar>(of_int (rne y - n) :: rat)\<bar> < 1" by simp
  then have "\<bar>rne y - n\<bar> < 1" by (simp only: of_int_abs [symmetric] of_int_less_1_iff)
  then show ?thesis by simp
qed

lemma nat_floorlog_bounds:
  assumes "0 < (p::int)"
  shows "(2::rat) ^ (floorlog 2 (nat p) - 1) \<le> of_int p"
    and "of_int p < (2::rat) ^ floorlog 2 (nat p)"
    and "0 < floorlog 2 (nat p)"
proof -
  have b: "2 ^ (floorlog 2 (nat p) - 1) \<le> nat p \<and> nat p < 2 ^ floorlog 2 (nat p)"
    using assms by (intro floorlog_bounds) simp_all
  from b have "int (2 ^ (floorlog 2 (nat p) - 1)) \<le> p" using assms by linarith
  then have "(of_int (2 ^ (floorlog 2 (nat p) - 1)) :: rat) \<le> of_int p"
    by simp
  then show "(2::rat) ^ (floorlog 2 (nat p) - 1) \<le> of_int p" by simp
  from b have "p < int (2 ^ floorlog 2 (nat p))" using assms by linarith
  then have "(of_int p :: rat) < of_int (2 ^ floorlog 2 (nat p))"
    by simp
  then show "of_int p < (2::rat) ^ floorlog 2 (nat p)" by simp
  show "0 < floorlog 2 (nat p)" using assms by (simp add: floorlog_def)
qed

text \<open>\<open>ilog2\<close> brackets its argument between two powers of two, and is the only such exponent.\<close>

lemma ilog2_bounds:
  assumes "0 < x"
  shows "2 powi (ilog2 x) \<le> x \<and> x < 2 powi (ilog2 x + 1)"
proof -
  obtain p q where pq: "quotient_of x = (p, q)" by (cases "quotient_of x")
  have q: "0 < q" using pq by (rule quotient_of_denom_pos)
  have x: "x = of_int p / of_int q" using pq by (rule quotient_of_div)
  have p: "0 < p" using assms q unfolding x by (simp add: zero_less_divide_iff)
  define lp where "lp = floorlog 2 (nat p)"
  define lq where "lq = floorlog 2 (nat q)"
  define d where "d = int lp - int lq"
  note bp = nat_floorlog_bounds [OF p, folded lp_def]
  note bq = nat_floorlog_bounds [OF q, folded lq_def]
  have qpos: "(0::rat) < of_int q" using q by simp
  have ppos: "(0::rat) < of_int p" using p by simp
  have up: "x < 2 powi (d + 1)"
  proof -
    have "of_int p * (2::rat) ^ (lq - 1) < 2 ^ lp * of_int q"
      using bp(2) bq(1) ppos by (intro mult_less_le_imp_less) simp_all
    then have "x < 2 ^ lp / 2 ^ (lq - 1)"
      unfolding x using qpos by (simp add: field_simps)
    also have "\<dots> = 2 powi (int lp - int (lq - 1))"
      by (simp add: power_int_diff)
    also have "int lp - int (lq - 1) = d + 1" using bq(3) by (simp add: d_def)
    finally show ?thesis .
  qed
  have lo: "2 powi (d - 1) \<le> x"
  proof -
    have "(2::rat) ^ (lp - 1) * of_int q \<le> of_int p * 2 ^ lq"
      using bp(1) bq(2) qpos ppos by (intro mult_mono) simp_all
    then have "2 ^ (lp - 1) / 2 ^ lq \<le> x"
      unfolding x using qpos by (simp add: field_simps)
    moreover have "(2::rat) ^ (lp - 1) / 2 ^ lq = 2 powi (int (lp - 1) - int lq)"
      by (simp add: power_int_diff)
    moreover have "int (lp - 1) - int lq = d - 1" using bp(3) by (simp add: d_def)
    ultimately show ?thesis by simp
  qed
  have il: "ilog2 x = (if 2 powi d \<le> x then d else d - 1)"
    by (simp add: ilog2_def pq Let_def d_def lp_def lq_def)
  show ?thesis
  proof (cases "2 powi d \<le> x")
    case True
    then show ?thesis using up il by simp
  next
    case False
    then show ?thesis using lo il by simp
  qed
qed

lemma ilog2_eqI:
  assumes "2 powi e \<le> x" and "x < 2 powi (e + 1)"
  shows "ilog2 x = e"
proof -
  have pos: "0 < x" using assms(1) by (rule less_le_trans [rotated]) simp
  note b = ilog2_bounds [OF pos]
  have lt1: "(2::rat) powi e < 2 powi (ilog2 x + 1)" using assms(1) b by linarith
  have 1: "e < ilog2 x + 1"
  proof (rule ccontr)
    assume "\<not> e < ilog2 x + 1"
    then have "ilog2 x + 1 \<le> e" by simp
    then have "(2::rat) powi (ilog2 x + 1) \<le> 2 powi e"
      by (rule power_int_increasing) simp
    with lt1 show False by simp
  qed
  have lt2: "(2::rat) powi ilog2 x < 2 powi (e + 1)" using assms(2) b by linarith
  have 2: "ilog2 x < e + 1"
  proof (rule ccontr)
    assume "\<not> ilog2 x < e + 1"
    then have "e + 1 \<le> ilog2 x" by simp
    then have "(2::rat) powi (e + 1) \<le> 2 powi ilog2 x"
      by (rule power_int_increasing) simp
    with lt2 show False by simp
  qed
  from 1 2 show ?thesis by simp
qed

text \<open>
  The value of \<open>double\<close> at a number in a known binade that is not half-way between
  two doubles, and the relative error of rounding in the normal range.
\<close>

lemma double_eqI:
  assumes "2 powi e \<le> \<bar>x\<bar>" and "\<bar>x\<bar> < 2 powi (e + 1)" and "- 1022 \<le> e"
    and "\<bar>x / 2 powi (e - 52) - of_int n\<bar> < 1 / 2"
  shows "double x = of_int n * 2 powi (e - 52)"
proof -
  have "(0::rat) < 2 powi e" by simp
  then have "0 < \<bar>x\<bar>" using assms(1) by (rule less_le_trans)
  then have nz: "x \<noteq> 0" by simp
  have il: "ilog2 \<bar>x\<bar> = e" using assms(1,2) by (rule ilog2_eqI)
  have "rne (x / 2 powi (e - 52)) = n" using assms(4) by (rule rne_eqI)
  then show ?thesis using nz il assms(3) by (simp add: double_def Let_def max_def)
qed

lemma double_error:
  assumes "2 powi (- 1022) \<le> x"
  shows "\<bar>double x - x\<bar> \<le> x / 2 ^ 53"
proof -
  have pos: "0 < x" using assms by (rule less_le_trans [rotated]) simp
  define e where "e = max (ilog2 \<bar>x\<bar>) (- 1022)"
  define u :: rat where "u = 2 powi (e - 52)"
  have upos: "0 < u" by (simp add: u_def)
  have d: "double x = of_int (rne (x / u)) * u"
    using pos by (simp add: double_def Let_def e_def u_def)
  have le: "2 powi e \<le> x"
  proof (cases "ilog2 \<bar>x\<bar> \<le> - 1022")
    case True
    then show ?thesis using assms by (simp add: e_def max_def)
  next
    case False
    then have "e = ilog2 x" using pos by (simp add: e_def max_def)
    then show ?thesis using ilog2_bounds [OF pos] by simp
  qed
  have "\<bar>of_int (rne (x / u)) - x / u\<bar> \<le> 1 / 2" by (rule rne_error)
  then have "\<bar>of_int (rne (x / u)) - x / u\<bar> * u \<le> 1 / 2 * u"
    using upos by (intro mult_right_mono) simp_all
  moreover have "\<bar>of_int (rne (x / u)) - x / u\<bar> * u = \<bar>double x - x\<bar>"
  proof -
    have "\<bar>of_int (rne (x / u)) - x / u\<bar> * u = \<bar>(of_int (rne (x / u)) - x / u) * u\<bar>"
      using upos by (simp add: abs_mult)
    also have "(of_int (rne (x / u)) - x / u) * u = double x - x"
      using upos by (simp add: d left_diff_distrib)
    finally show ?thesis .
  qed
  moreover have "1 / 2 * u = 2 powi e / 2 ^ 53"
  proof -
    have "u = 2 powi e / 2 powi 52" unfolding u_def by (simp add: power_int_diff)
    then show ?thesis by simp
  qed
  ultimately have "\<bar>double x - x\<bar> \<le> 2 powi e / 2 ^ 53" by simp
  also have "\<dots> \<le> x / 2 ^ 53" using le by (simp add: divide_right_mono)
  finally show ?thesis .
qed

lemma double_0: "double 0 = 0"
  by (simp add: double_def)

text \<open>The doubles of the zoom table, and the products of the examples.\<close>

lemma ZOOM_IN_FACTOR_value: "ZOOM_IN_FACTOR = 5854679515581645 / 4503599627370496"
  unfolding ZOOM_IN_FACTOR_def
  using double_eqI [of 0 "13 / 10" 5854679515581645] by simp

lemma ZOOM_OUT_FACTOR_value: "ZOOM_OUT_FACTOR = 3152519739159347 / 4503599627370496"
  unfolding ZOOM_OUT_FACTOR_def
  using double_eqI [of "- 1" "7 / 10" 6305039478318694] by simp

lemma INITIAL_SCALE_value: "INITIAL_SCALE = 3602879701896397 / 4503599627370496"
  unfolding INITIAL_SCALE_def
  using double_eqI [of "- 1" "8 / 10" 7205759403792794] by simp

lemma double_INITIAL_SCALE: "double (3602879701896397 / 4503599627370496) = 3602879701896397 / 4503599627370496"
  using double_eqI [of "- 1" "3602879701896397 / 4503599627370496" 7205759403792794] by simp

lemma double_1_3: "double (5854679515581645 / 4503599627370496) = 5854679515581645 / 4503599627370496"
  using double_eqI [of 0 "5854679515581645 / 4503599627370496" 5854679515581645] by simp

lemma double_1_3_times_0_7:
  "double (18456992739323019545360043385815 / 20282409603651670423947251286016)
     = 4098275660907151 / 4503599627370496"
  using double_eqI [of "- 1" "18456992739323019545360043385815 / 20282409603651670423947251286016"
      8196551321814302] by simp

lemma double_0_91: "double (91 / 100) = 8196551321814303 / 9007199254740992"
  using double_eqI [of "- 1" "91 / 100" 8196551321814303] by simp

section \<open>Viewport properties\<close>

lemma presses_mounted: "\<exists>v. presses p0 bs (Some v0) = Some v"
proof (induction bs arbitrary: v0)
  case Nil
  show ?case by (simp add: presses_def)
next
  case (Cons b bs)
  obtain v1 where "press p0 b (Some v0) = Some v1"
    by (cases b) (simp_all add: handleZoomIn_def handleZoomOut_def handleResetZoom_def)
  with Cons.IH [of v1] show ?case by (simp add: presses_def)
qed

text \<open>
  C1. From any state \<open>v0\<close> of the mounted component (the state after mount, or after
  any drag or wheel gesture) and after any sequence of button presses, the reset handler
  leaves the translation at \<open>(0, 0)\<close> but the scale at 1, the scale of
  \<^verbatim>\<open>d3.zoomIdentity\<close>, which is not \<open>INITIAL_SCALE\<close> (0.8), the scale set at mount
  (\<open>mount\<close> is such a state).
\<close>

theorem reset_gives_identity_scale:
  "\<exists>v. presses p0 (bs @ [ResetZoom]) (Some v0) = Some v
      \<and> tk (zoom v) = 1 \<and> zoomLevel v = 1 \<and> tx (zoom v) = 0 \<and> ty (zoom v) = 0
      \<and> tk (zoom v) \<noteq> INITIAL_SCALE
      \<and> mount = Some \<lparr>zoom = \<lparr>tk = INITIAL_SCALE, tx = 0, ty = 0\<rparr>, zoomLevel = INITIAL_SCALE\<rparr>"
proof -
  obtain v1 where "presses p0 bs (Some v0) = Some v1"
    using presses_mounted [of p0 bs v0] by blast
  moreover have "dmul 1 INITIAL_SCALE = INITIAL_SCALE"
    by (simp add: dmul_def INITIAL_SCALE_value double_INITIAL_SCALE)
  moreover have "1 \<noteq> INITIAL_SCALE"
    by (simp add: INITIAL_SCALE_value)
  ultimately show ?thesis
    by (simp add: presses_def handleResetZoom_def zoom_transform_def on_zoom_def
        zoomIdentity_def mount_def t_scale_def)
qed

text \<open>
  One zoom step keeps the scale within a relative distance of its factor: the product
  is rounded once, and clamping to bounds that the exact product respects moves the
  rounded product no further from it.
\<close>

lemma clamp_between:
  assumes "lo \<le> x" and "x \<le> hi" and "lo \<le> MAX_SCALE" and "MIN_SCALE \<le> hi"
  shows "lo \<le> clamp_scale x \<and> clamp_scale x \<le> hi"
  using assms by (auto simp: clamp_scale_def max_def min_def)

lemma dmul_between:
  assumes "1 / 4 \<le> a * b"
  shows "a * b - a * b / 2 ^ 53 \<le> dmul a b \<and> dmul a b \<le> a * b + a * b / 2 ^ 53"
proof -
  have "(2::rat) powi (- 1022) \<le> 2 powi (- 2)"
    by (rule power_int_increasing) simp_all
  then have "2 powi (- 1022) \<le> a * b" using assms by (simp add: power_int_minus)
  then have "\<bar>double (a * b) - a * b\<bar> \<le> a * b / 2 ^ 53" by (rule double_error)
  then show ?thesis unfolding dmul_def by linarith
qed

text \<open>
  C10, amended. The zoom-in factor is 1.3 and the zoom-out factor is 0.7. At a scale
  \<open>s\<close> where neither step is clamped (\<open>1.3 * s \<le> MAX_SCALE\<close> and
  \<open>MIN_SCALE \<le> 0.91 * s\<close>), zooming in and then out gives a scale that is smaller than
  \<open>s\<close>, so not \<open>s\<close>, and that is \<open>0.91 * s\<close> up to the rounding of the two double
  products: it differs from \<open>0.91 * s\<close> by at most \<open>s / 2 ^ 51\<close>.
\<close>

theorem zoomIn_zoomOut_not_inverse:
  assumes "tk (zoom v) = s"
    and "13 / 10 * s \<le> MAX_SCALE"
    and "MIN_SCALE \<le> 91 / 100 * s"
  shows "\<exists>v'. handleZoomOut p0 (handleZoomIn p0 (Some v)) = Some v'
      \<and> zoomLevel v' = tk (zoom v')
      \<and> tk (zoom v') \<noteq> s \<and> tk (zoom v') < s
      \<and> \<bar>tk (zoom v') - 91 / 100 * s\<bar> \<le> s / 2 ^ 51"
proof -
  have s: "50 / 91 \<le> s" "s \<le> 30 / 13"
    using assms(2,3) by (simp_all add: MIN_SCALE_def MAX_SCALE_def)
  define k1 where "k1 = clamp_scale (dmul s ZOOM_IN_FACTOR)"
  define k2 where "k2 = clamp_scale (dmul k1 ZOOM_OUT_FACTOR)"
  define v1 where "v1 = zoom_scaleBy p0 v ZOOM_IN_FACTOR"
  define v2 where "v2 = zoom_scaleBy p0 v1 ZOOM_OUT_FACTOR"
  have tk1: "tk (zoom v1) = k1"
    by (simp add: v1_def zoom_scaleBy_def Let_def on_zoom_def assms(1) k1_def)
  have tk2: "tk (zoom v2) = k2" "zoomLevel v2 = k2"
    by (simp_all add: v2_def zoom_scaleBy_def Let_def on_zoom_def tk1 k2_def)
  have run: "handleZoomOut p0 (handleZoomIn p0 (Some v)) = Some v2"
    by (simp add: handleZoomIn_def handleZoomOut_def v1_def v2_def)
  have "1 / 4 \<le> s * ZOOM_IN_FACTOR"
    using s by (simp add: ZOOM_IN_FACTOR_value)
  from dmul_between [OF this]
  have x1: "s * (13 / 10 - 1 / 2 ^ 52) \<le> dmul s ZOOM_IN_FACTOR"
    "dmul s ZOOM_IN_FACTOR \<le> s * (13 / 10 + 1 / 2 ^ 52)"
    using s by (simp_all add: ZOOM_IN_FACTOR_value)
  have "s * (13 / 10 - 1 / 2 ^ 52) \<le> k1 \<and> k1 \<le> s * (13 / 10 + 1 / 2 ^ 52)"
    unfolding k1_def using x1
  proof (rule clamp_between)
    show "s * (13 / 10 - 1 / 2 ^ 52) \<le> MAX_SCALE" using s by (simp add: MAX_SCALE_def)
    show "MIN_SCALE \<le> s * (13 / 10 + 1 / 2 ^ 52)" using s by (simp add: MIN_SCALE_def)
  qed
  then have b1: "s * (13 / 10 - 1 / 2 ^ 52) \<le> k1" "k1 \<le> s * (13 / 10 + 1 / 2 ^ 52)"
    by simp_all
  have "1 / 4 \<le> k1 * (3152519739159347 / 4503599627370496)"
    using b1(1) s(1) by simp
  then have "1 / 4 \<le> k1 * ZOOM_OUT_FACTOR"
    by (simp only: ZOOM_OUT_FACTOR_value)
  from dmul_between [OF this]
  have "k1 * (3152519739159347 / 4503599627370496)
          - k1 * (3152519739159347 / 4503599627370496) / 2 ^ 53 \<le> dmul k1 ZOOM_OUT_FACTOR"
    and "dmul k1 ZOOM_OUT_FACTOR \<le> k1 * (3152519739159347 / 4503599627370496)
          + k1 * (3152519739159347 / 4503599627370496) / 2 ^ 53"
    by (simp_all only: ZOOM_OUT_FACTOR_value)
  then have x2: "s * (91 / 100 - 1 / 2 ^ 51) \<le> dmul k1 ZOOM_OUT_FACTOR"
    "dmul k1 ZOOM_OUT_FACTOR \<le> s * (91 / 100 + 1 / 2 ^ 51)"
    using b1 s by simp_all
  have "s * (91 / 100 - 1 / 2 ^ 51) \<le> k2 \<and> k2 \<le> s * (91 / 100 + 1 / 2 ^ 51)"
    unfolding k2_def using x2
  proof (rule clamp_between)
    show "s * (91 / 100 - 1 / 2 ^ 51) \<le> MAX_SCALE" using s by (simp add: MAX_SCALE_def)
    show "MIN_SCALE \<le> s * (91 / 100 + 1 / 2 ^ 51)" using s by (simp add: MIN_SCALE_def)
  qed
  then have b2: "s * (91 / 100 - 1 / 2 ^ 51) \<le> k2" "k2 \<le> s * (91 / 100 + 1 / 2 ^ 51)"
    by simp_all
  have lt: "k2 < s" using b2(2) s(1) by simp
  have "k2 - 91 / 100 * s \<le> s / 2 ^ 51" using b2(2) by simp
  moreover have "- (k2 - 91 / 100 * s) \<le> s / 2 ^ 51" using b2(1) by simp
  ultimately have near: "\<bar>k2 - 91 / 100 * s\<bar> \<le> s / 2 ^ 51"
    by (rule abs_leI)
  show ?thesis using run tk2 lt near by auto
qed

theorem zoomIn_zoomOut_not_inverse_witness:
  "13 / 10 * INITIAL_SCALE \<le> MAX_SCALE \<and> MIN_SCALE \<le> 91 / 100 * INITIAL_SCALE
    \<and> (\<exists>v'. handleZoomOut (0, 0) (handleZoomIn (0, 0) mount) = Some v'
         \<and> tk (zoom v') < INITIAL_SCALE
         \<and> \<bar>tk (zoom v') - 91 / 100 * INITIAL_SCALE\<bar> \<le> INITIAL_SCALE / 2 ^ 51)"
proof -
  have m: "mount = Some \<lparr>zoom = \<lparr>tk = INITIAL_SCALE, tx = 0, ty = 0\<rparr>, zoomLevel = INITIAL_SCALE\<rparr>"
    by (simp add: mount_def on_zoom_def t_scale_def zoomIdentity_def dmul_def
        INITIAL_SCALE_value double_INITIAL_SCALE)
  have h1: "13 / 10 * INITIAL_SCALE \<le> MAX_SCALE"
    by (simp add: INITIAL_SCALE_value MAX_SCALE_def)
  have h2: "MIN_SCALE \<le> 91 / 100 * INITIAL_SCALE"
    by (simp add: INITIAL_SCALE_value MIN_SCALE_def)
  have "tk (zoom \<lparr>zoom = \<lparr>tk = INITIAL_SCALE, tx = 0, ty = 0\<rparr>, zoomLevel = INITIAL_SCALE\<rparr>)
      = INITIAL_SCALE" by simp
  from zoomIn_zoomOut_not_inverse [OF this h1 h2, of "(0, 0)"] h1 h2 show ?thesis
    unfolding m by blast
qed

text \<open>
  C10, as the claim states it, fails: the scale after the two steps is not always
  \<open>0.91 * s\<close>. From scale 1 (the state after a reset) the two double products give
  \<open>4098275660907151 / 2 ^ 52\<close>, which prints as \<^verbatim>\<open>0.9099999999999999\<close>: neither the
  number 0.91 nor the double product \<^verbatim>\<open>0.91 * 1\<close>.
\<close>

theorem zoomIn_zoomOut_exact_counterexample:
  "handleZoomOut (0, 0) (handleZoomIn (0, 0) (Some (on_zoom zoomIdentity)))
     = Some \<lparr>zoom = \<lparr>tk = 4098275660907151 / 4503599627370496, tx = 0, ty = 0\<rparr>,
             zoomLevel = 4098275660907151 / 4503599627370496\<rparr>
    \<and> 4098275660907151 / 4503599627370496 \<noteq> (91 / 100 * 1 :: rat)
    \<and> 4098275660907151 / 4503599627370496 \<noteq> dmul (double (91 / 100)) 1
    \<and> 13 / 10 * 1 \<le> MAX_SCALE \<and> MIN_SCALE \<le> 91 / 100 * 1"
proof -
  have k1: "clamp_scale (dmul 1 ZOOM_IN_FACTOR) = 5854679515581645 / 4503599627370496"
    by (simp add: dmul_def ZOOM_IN_FACTOR_value double_1_3 clamp_scale_def
        MIN_SCALE_def MAX_SCALE_def)
  have k2: "clamp_scale (dmul (5854679515581645 / 4503599627370496) ZOOM_OUT_FACTOR)
      = 4098275660907151 / 4503599627370496"
    by (simp add: dmul_def ZOOM_OUT_FACTOR_value double_1_3_times_0_7 clamp_scale_def
        MIN_SCALE_def MAX_SCALE_def)
  have d91: "dmul (double (91 / 100)) 1 = 8196551321814303 / 9007199254740992"
    using double_eqI [of "- 1" "8196551321814303 / 9007199254740992" 8196551321814303]
    by (simp add: dmul_def double_0_91)
  have z: "dsub 0 0 = 0" "ddiv 0 1 = 0" "dmul 0 x = 0" for x
    by (simp_all add: dsub_def ddiv_def dmul_def double_0)
  have run: "handleZoomOut (0, 0) (handleZoomIn (0, 0) (Some (on_zoom zoomIdentity)))
     = Some \<lparr>zoom = \<lparr>tk = 4098275660907151 / 4503599627370496, tx = 0, ty = 0\<rparr>,
             zoomLevel = 4098275660907151 / 4503599627370496\<rparr>"
    by (simp add: handleZoomIn_def handleZoomOut_def zoom_scaleBy_def Let_def on_zoom_def
        zoomIdentity_def k1 k2 z ddiv_def double_0)
  show ?thesis
    unfolding d91 using run by (simp add: MAX_SCALE_def MIN_SCALE_def)
qed

section \<open>Text fitter properties\<close>

text \<open>
  The invariant of the wrapping loop: every closed line, and the line being built unless
  it is still empty, either fits or is one of the words.
\<close>

lemma wrap_word_invariant:
  assumes "\<And>l. l \<in> set (fst st) \<Longrightarrow> m l fontSize \<le> maxWidth \<or> l \<in> W"
    and "snd st = [] \<or> m (snd st) fontSize \<le> maxWidth \<or> snd st \<in> W"
    and "word \<in> W"
    and "st1 = wrap_word m maxWidth fontSize word st"
  shows "(\<forall>l \<in> set (fst st1). m l fontSize \<le> maxWidth \<or> l \<in> W)
      \<and> (snd st1 = [] \<or> m (snd st1) fontSize \<le> maxWidth \<or> snd st1 \<in> W)"
proof (cases "snd st = []")
  case True
  then have "st1 = (fst st, word)"
    using assms(4) by (simp add: wrap_word_def Let_def)
  then show ?thesis using assms(1,3) by auto
next
  case False
  show ?thesis
  proof (cases "m (snd st @ [0x20] @ word) fontSize > maxWidth")
    case True
    then have "st1 = (fst st @ [snd st], word)"
      using assms(4) False by (simp add: wrap_word_def Let_def)
    then show ?thesis using assms(1,2,3) False by auto
  next
    case fits: False
    then have "st1 = (fst st, snd st @ [0x20] @ word)"
      using assms(4) False by (simp add: wrap_word_def Let_def)
    then show ?thesis using assms(1) fits by auto
  qed
qed

lemma wrap_fold_invariant:
  assumes "\<And>l. l \<in> set (fst st) \<Longrightarrow> m l fontSize \<le> maxWidth \<or> l \<in> W"
    and "snd st = [] \<or> m (snd st) fontSize \<le> maxWidth \<or> snd st \<in> W"
    and "set ws \<subseteq> W"
    and "st1 = fold (wrap_word m maxWidth fontSize) ws st"
  shows "(\<forall>l \<in> set (fst st1). m l fontSize \<le> maxWidth \<or> l \<in> W)
      \<and> (snd st1 = [] \<or> m (snd st1) fontSize \<le> maxWidth \<or> snd st1 \<in> W)"
  using assms
proof (induction ws arbitrary: st)
  case Nil
  then show ?case by auto
next
  case (Cons w ws)
  define st2 where "st2 = wrap_word m maxWidth fontSize w st"
  have w: "w \<in> W" using Cons.prems(3) by simp
  have inv: "(\<forall>l \<in> set (fst st2). m l fontSize \<le> maxWidth \<or> l \<in> W)
      \<and> (snd st2 = [] \<or> m (snd st2) fontSize \<le> maxWidth \<or> snd st2 \<in> W)"
    by (rule wrap_word_invariant [OF Cons.prems(1) Cons.prems(2) w st2_def])
  show ?case
  proof (rule Cons.IH [of st2])
    show "m l fontSize \<le> maxWidth \<or> l \<in> W" if "l \<in> set (fst st2)" for l
      using inv that by blast
    show "snd st2 = [] \<or> m (snd st2) fontSize \<le> maxWidth \<or> snd st2 \<in> W"
      using inv by blast
    show "set ws \<subseteq> W" using Cons.prems(3) by simp
    show "st1 = fold (wrap_word m maxWidth fontSize) ws st2"
      using Cons.prems(4) by (simp add: st2_def)
  qed
qed

lemma wrapText_fits_or_word:
  assumes "line \<in> set (wrapText m text maxWidth fontSize)"
  shows "m line fontSize \<le> maxWidth \<or> line \<in> set (split_whitespace text)"
proof -
  define st1 where
    "st1 = fold (wrap_word m maxWidth fontSize) (split_whitespace text) ([], [])"
  have inv: "(\<forall>l \<in> set (fst st1). m l fontSize \<le> maxWidth \<or> l \<in> set (split_whitespace text))
      \<and> (snd st1 = [] \<or> m (snd st1) fontSize \<le> maxWidth \<or> snd st1 \<in> set (split_whitespace text))"
    by (rule wrap_fold_invariant [where st = "([], [])" and ws = "split_whitespace text"])
       (simp_all add: st1_def)
  have "line \<in> set (fst st1) \<or> (snd st1 \<noteq> [] \<and> line = snd st1)"
    using assms by (auto simp: wrapText_def Let_def st1_def split: if_splits)
  then show ?thesis using inv by blast
qed

text \<open>The loop of the code and the recursion of the specification give the same lines.\<close>

lemma wrap_fold_greedy:
  assumes "st1 = fold (wrap_word m maxWidth fontSize) ws st"
  shows "(if snd st1 \<noteq> [] then fst st1 @ [snd st1] else fst st1)
       = fst st @ greedy_wrap m maxWidth fontSize (snd st) ws"
  using assms
proof (induction ws arbitrary: st st1)
  case Nil
  then show ?case by simp
next
  case (Cons w ws)
  define st2 where "st2 = wrap_word m maxWidth fontSize w st"
  have step: "st1 = fold (wrap_word m maxWidth fontSize) ws st2"
    using Cons.prems by (simp add: st2_def)
  have "fst st2 @ greedy_wrap m maxWidth fontSize (snd st2) ws
      = fst st @ greedy_wrap m maxWidth fontSize (snd st) (w # ws)"
    by (simp add: st2_def wrap_word_def Let_def not_less)
  then show ?case using Cons.IH [OF step] by simp
qed

lemma wrapText_greedy:
  "wrapText m text maxWidth fontSize
     = greedy_wrap m maxWidth fontSize [] (split_whitespace text)"
proof -
  define st1 where
    "st1 = fold (wrap_word m maxWidth fontSize) (split_whitespace text) ([], [])"
  from wrap_fold_greedy [OF st1_def] show ?thesis
    unfolding wrapText_def Let_def st1_def [symmetric] by simp
qed

text \<open>
  What the font-size loop returns: a size from 9 to the start size, with the lines
  wrapped for that size, or for size 10 when the size returned is 9.
\<close>

lemma fit_loop_result:
  assumes "fit_loop m label maxWidth maxHeight fs0 ls0 lh0 = (f, ls, lh)"
    and "9 \<le> fs0"
    and "fs0 = 9 \<Longrightarrow> ls0 = wrapText m label maxWidth 10"
  shows "ls = wrapText m label maxWidth (max 10 f) \<and> 9 \<le> f \<and> f \<le> fs0"
  using assms
proof (induction m label maxWidth maxHeight fs0 ls0 lh0 rule: fit_loop.induct)
  case (1 m label maxWidth maxHeight fontSize lines lineHeight)
  show ?case
  proof (cases "10 \<le> fontSize")
    case False
    then have "fontSize = 9" using "1.prems"(2) by simp
    moreover have "fit_loop m label maxWidth maxHeight fontSize lines lineHeight
        = (fontSize, lines, lineHeight)"
      using False by (subst fit_loop.simps) simp
    ultimately show ?thesis using "1.prems"(1,3) by simp
  next
    case True
    define lines1 where "lines1 = wrapText m label maxWidth fontSize"
    define lineHeight1 :: rat where "lineHeight1 = of_int fontSize * (12 / 10)"
    define totalHeight where "totalHeight = of_nat (length lines1) * lineHeight1"
    have unfold: "fit_loop m label maxWidth maxHeight fontSize lines lineHeight
        = (if totalHeight \<le> maxHeight then (fontSize, lines1, lineHeight1)
           else fit_loop m label maxWidth maxHeight (fontSize - 1) lines1 lineHeight1)"
      using True
      by (subst fit_loop.simps) (simp add: Let_def lines1_def lineHeight1_def totalHeight_def)
    show ?thesis
    proof (cases "totalHeight \<le> maxHeight")
      case fits: True
      then show ?thesis using "1.prems"(1) True unfolding unfold by (auto simp: lines1_def)
    next
      case False
      then have rec: "fit_loop m label maxWidth maxHeight (fontSize - 1) lines1 lineHeight1
          = (f, ls, lh)"
        using "1.prems"(1) unfolding unfold by simp
      have "ls = wrapText m label maxWidth (max 10 f) \<and> 9 \<le> f \<and> f \<le> fontSize - 1"
      proof (rule "1.IH" [OF True lines1_def lineHeight1_def totalHeight_def False rec])
        show "9 \<le> fontSize - 1" using True by simp
        show "lines1 = wrapText m label maxWidth 10" if "fontSize - 1 = 9"
        proof -
          have "fontSize = 10" using that by simp
          then show ?thesis by (simp add: lines1_def)
        qed
      qed
      then show ?thesis by simp
    qed
  qed
qed

lemma em_width_monotonic:
  "0 \<le> fontSize \<Longrightarrow> em_width line fontSize \<le> em_width (line @ rest) fontSize"
  "fontSize \<le> fontSize1 \<Longrightarrow> em_width line fontSize \<le> em_width line fontSize1"
  by (simp_all add: em_width_def mult_left_mono mult_right_mono)

text \<open>
  C4. A label that does not fit at any size from 16 down to 10 leaves the loop with
  \<open>fontSize = 9\<close>, and that is the \<^verbatim>\<open>font-size\<close> of every text element drawn for
  it: below the floor of 10. Here: the long label of the component's test suite, with
  characters one em wide, drawn as the seven lines it wraps to at size 10.
\<close>

theorem hub_text_rendered_below_floor:
  "map font_size (draw_hub_text em_width
      (js ''This is a very long reservoir name that should be handled properly by the text wrapping functionality''))
    = [9, 9, 9, 9, 9, 9, 9]"
  by code_simp

text \<open>
  C5, as the claim states it, fails: a word wider than \<open>maxWidth\<close> is a line of its own
  (\<open>em_width\<close> is monotonic in the text and in the size). The label fits at size 16,
  which is the size returned, and its first line measures 208 there.
\<close>

theorem hub_line_wide_word_counterexample:
  "fit_loop em_width (js ''Hydroelectric Dam'') 160 60 16 [] 0
      = (16, [js ''Hydroelectric'', js ''Dam''], 96 / 5)
    \<and> 160 < em_width (js ''Hydroelectric'') 16"
  by code_simp

text \<open>
  C5, amended. For every text, width, height and measurement that is monotonic in the
  font size, every line of the hub label either measures at most \<open>maxWidth\<close> at the font
  size returned, or is a single word of the text. The lines returned are those wrapped
  for the size returned, or for size 10 when the size returned is 9; and the lines
  wrapped for a size are those of the greedy rule: words are accumulated into a line
  while the measured width stays within \<open>maxWidth\<close>, and a word whose addition would
  exceed \<open>maxWidth\<close> starts a new line.
\<close>

theorem hub_lines_fit_or_single_word:
  assumes "\<And>line a b. a \<le> b \<Longrightarrow> m line a \<le> m line b"
  shows "(\<forall>line \<in> set (fst (snd (fit_loop m text maxWidth maxHeight 16 [] 0))).
            m line (fst (fit_loop m text maxWidth maxHeight 16 [] 0)) \<le> maxWidth
          \<or> line \<in> set (split_whitespace text))
      \<and> fst (snd (fit_loop m text maxWidth maxHeight 16 [] 0))
          = wrapText m text maxWidth (max 10 (fst (fit_loop m text maxWidth maxHeight 16 [] 0)))
      \<and> wrapText m text maxWidth fontSize
          = greedy_wrap m maxWidth fontSize [] (split_whitespace text)"
proof -
  obtain f ls lh where r: "fit_loop m text maxWidth maxHeight 16 [] 0 = (f, ls, lh)"
    by (cases "fit_loop m text maxWidth maxHeight 16 [] 0")
  have res: "ls = wrapText m text maxWidth (max 10 f) \<and> 9 \<le> f \<and> f \<le> 16"
    using r by (rule fit_loop_result) simp_all
  have "m line f \<le> maxWidth \<or> line \<in> set (split_whitespace text)" if "line \<in> set ls" for line
  proof -
    have "line \<in> set (wrapText m text maxWidth (max 10 f))" using that res by simp
    then have "m line (max 10 f) \<le> maxWidth \<or> line \<in> set (split_whitespace text)"
      by (rule wrapText_fits_or_word)
    moreover have "m line f \<le> m line (max 10 f)" by (rule assms) simp
    ultimately show ?thesis by auto
  qed
  then have "\<forall>line \<in> set ls. m line f \<le> maxWidth \<or> line \<in> set (split_whitespace text)"
    by blast
  moreover have "ls = wrapText m text maxWidth (max 10 f)" using res by simp
  ultimately show ?thesis
    unfolding r fst_conv snd_conv using wrapText_greedy by blast
qed

theorem hub_lines_fit_or_single_word_witness:
  "fit_loop em_width (js ''Emerald Lake Dam'') 160 60 16 [] 0
      = (16, [js ''Emerald'', js ''Lake Dam''], 96 / 5)
    \<and> (em_width (js ''Lake Dam'') 16 \<le> 160
        \<or> js ''Lake Dam'' \<in> set (split_whitespace (js ''Emerald Lake Dam'')))
    \<and> em_width (js ''Lake Dam'') 16 = 128
    \<and> wrapText em_width (js ''Emerald Lake Dam'') 160 16
        = greedy_wrap em_width 160 16 [] (split_whitespace (js ''Emerald Lake Dam''))
    \<and> greedy_wrap em_width 160 16 [] (split_whitespace (js ''Emerald Lake Dam''))
        = [js ''Emerald'', js ''Lake Dam'']"
proof -
  have r: "fit_loop em_width (js ''Emerald Lake Dam'') 160 60 16 [] 0
      = (16, [js ''Emerald'', js ''Lake Dam''], 96 / 5)"
    by code_simp
  have w: "em_width (js ''Lake Dam'') 16 = 128" by code_simp
  have g: "greedy_wrap em_width 160 16 [] (split_whitespace (js ''Emerald Lake Dam''))
        = [js ''Emerald'', js ''Lake Dam'']"
    by code_simp
  note t = hub_lines_fit_or_single_word [of em_width "js ''Emerald Lake Dam''" 160 60 16,
      OF em_width_monotonic(2)]
  from t have "em_width (js ''Lake Dam'') 16 \<le> 160
        \<or> js ''Lake Dam'' \<in> set (split_whitespace (js ''Emerald Lake Dam''))"
    unfolding r fst_conv snd_conv by simp
  moreover from t have "wrapText em_width (js ''Emerald Lake Dam'') 160 16
        = greedy_wrap em_width 160 16 [] (split_whitespace (js ''Emerald Lake Dam''))"
    by simp
  ultimately show ?thesis using r w g by (simp only: simp_thms)
qed

section \<open>Store and layout properties\<close>

text \<open>
  What the store operations keep: an assignment changes one own property of one object,
  so lengths, prototypes and types stay, and so does every object at another address.
\<close>

lemma map_create_eq:
  "map_create h ds = (h @ map created ds, [length h ..< length h + length ds])"
proof (induction ds arbitrary: h)
  case Nil
  show ?case by simp
next
  case (Cons d ds)
  have "[length h ..< length h + length (d # ds)]
      = length h # [length (h @ [created d]) ..< length (h @ [created d]) + length ds]"
    using upt_conv_Cons [of "length h" "length h + length (d # ds)"] by simp
  then show ?case
    by (simp add: Cons.IH Object_create_def Let_def)
qed

lemma length_set_fx: "length (set_fx h a v) = length h"
  by (simp add: set_fx_def)

lemma length_set_fy: "length (set_fy h a v) = length h"
  by (simp add: set_fy_def)

lemma length_place_column: "length (place_column h ns i x startY) = length h"
  by (induction ns arbitrary: h i) (simp_all add: length_set_fx length_set_fy)

lemma take_set_fx: "n \<le> a \<Longrightarrow> take n (set_fx h a v) = take n h"
  by (simp add: set_fx_def)

lemma take_set_fy: "n \<le> a \<Longrightarrow> take n (set_fy h a v) = take n h"
  by (simp add: set_fy_def)

lemma take_place_column:
  "(\<And>a. a \<in> set ns \<Longrightarrow> n \<le> a) \<Longrightarrow> take n (place_column h ns i x startY) = take n h"
  by (induction ns arbitrary: h i) (simp_all add: take_set_fx take_set_fy)

lemma nth_set_fx_other: "b \<noteq> a \<Longrightarrow> set_fx h a v ! b = h ! b"
  by (simp add: set_fx_def)

lemma nth_set_fy_other: "b \<noteq> a \<Longrightarrow> set_fy h a v ! b = h ! b"
  by (simp add: set_fy_def)

lemma nth_place_column_other:
  "b \<notin> set ns \<Longrightarrow> place_column h ns i x startY ! b = h ! b"
  by (induction ns arbitrary: h i) (auto simp: nth_set_fx_other nth_set_fy_other)

lemma nth_update_keeps:
  assumes "\<And>ob. f (g ob) = f ob"
  shows "f (h[a := g (h ! a)] ! b) = f (h ! b)"
proof (cases "a < length h")
  case True
  then show ?thesis by (cases "a = b") (simp_all add: assms)
next
  case False
  then show ?thesis by (simp add: list_update_beyond)
qed

lemma set_fx_keeps:
  "proto (set_fx h a v ! b) = proto (h ! b)"
  "own_type (set_fx h a v ! b) = own_type (h ! b)"
  "own_fy (set_fx h a v ! b) = own_fy (h ! b)"
  unfolding set_fx_def by (rule nth_update_keeps, simp)+

lemma set_fy_keeps:
  "proto (set_fy h a v ! b) = proto (h ! b)"
  "own_type (set_fy h a v ! b) = own_type (h ! b)"
  "own_fx (set_fy h a v ! b) = own_fx (h ! b)"
  unfolding set_fy_def by (rule nth_update_keeps, simp)+

lemma place_column_keeps:
  "proto (place_column h ns i x startY ! b) = proto (h ! b)"
  "own_type (place_column h ns i x startY ! b) = own_type (h ! b)"
  by (induction ns arbitrary: h i) (simp_all add: set_fx_keeps set_fy_keeps)

lemma lookup_cong:
  assumes "\<And>b. field (h1 ! b) = field (h ! b)" and "\<And>b. proto (h1 ! b) = proto (h ! b)"
  shows "lookup n field h1 a = lookup n field h a"
  by (induction n arbitrary: a) (simp_all add: assms split: option.splits)

lemma get_own:
  assumes "a < length h" and "field (h ! a) = Some v"
  shows "get field h a = Some v"
proof -
  obtain n where "length h = Suc n" using assms(1) by (cases "length h") auto
  then show ?thesis using assms(2) by (simp add: get_def)
qed

lemma get_type_set_fx: "get own_type (set_fx h a v) b = get own_type h b"
  unfolding get_def length_set_fx by (rule lookup_cong) (simp_all add: set_fx_keeps)

lemma get_type_set_fy: "get own_type (set_fy h a v) b = get own_type h b"
  unfolding get_def length_set_fy by (rule lookup_cong) (simp_all add: set_fy_keeps)

lemma get_type_place_column: "get own_type (place_column h ns i x startY) b = get own_type h b"
  unfolding get_def length_place_column by (rule lookup_cong) (simp_all add: place_column_keeps)

lemma placed_column:
  assumes "distinct ns" and "j < length ns" and "ns ! j < length h"
  shows "own_fx (place_column h ns i x startY ! (ns ! j)) = Some x
       \<and> own_fy (place_column h ns i x startY ! (ns ! j)) = Some (startY + of_nat (i + j) * NODE_SPACING)"
  using assms
proof (induction ns arbitrary: h i j)
  case Nil
  then show ?case by simp
next
  case (Cons n ns)
  define h1 where "h1 = set_fy (set_fx h n x) n (startY + of_nat i * NODE_SPACING)"
  have len: "length h1 = length h" by (simp add: h1_def length_set_fx length_set_fy)
  show ?case
  proof (cases j)
    case 0
    then have n: "n < length h" using Cons.prems(3) by simp
    have "n \<notin> set ns" using Cons.prems(1) by simp
    then have "place_column h1 ns (Suc i) x startY ! n = h1 ! n"
      by (rule nth_place_column_other)
    moreover have "own_fx (h1 ! n) = Some x" "own_fy (h1 ! n) = Some (startY + of_nat i * NODE_SPACING)"
      using n by (simp_all add: h1_def set_fx_def set_fy_def)
    ultimately show ?thesis using 0 by (simp add: h1_def)
  next
    case (Suc k)
    have "own_fx (place_column h1 ns (Suc i) x startY ! (ns ! k)) = Some x
       \<and> own_fy (place_column h1 ns (Suc i) x startY ! (ns ! k)) = Some (startY + of_nat (Suc i + k) * NODE_SPACING)"
      using Cons.prems Suc by (intro Cons.IH) (simp_all add: len)
    then show ?thesis using Suc by (simp add: h1_def)
  qed
qed

lemma take_place_right:
  assumes "\<And>a. a \<in> set outs \<Longrightarrow> n \<le> a" and "\<And>a. a \<in> set projs \<Longrightarrow> n \<le> a"
  shows "take n (fst (place_right h outs projs)) = take n h"
  by (simp add: place_right_def Let_def take_place_column assms)

lemma length_place_right: "length (fst (place_right h outs projs)) = length h"
  by (simp add: place_right_def Let_def length_place_column)

lemma get_type_place_right: "get own_type (fst (place_right h outs projs)) b = get own_type h b"
  by (simp add: place_right_def Let_def get_type_place_column)

lemma place_right_both:
  assumes "outs \<noteq> []" and "projs \<noteq> []"
  shows "fst (place_right h outs projs) =
     place_column
       (place_column h outs 0 HORIZONTAL_SPACING
          (- (MAIN_RECT_HEIGHT / 4) - (of_nat (length outs) - 1) * NODE_SPACING))
       projs 0 HORIZONTAL_SPACING (MAIN_RECT_HEIGHT / 4)"
  using assms by (simp add: place_right_def Let_def)

lemma layout_nodes:
  "l_nodes (layout h0 data) = [length h0 ..< length h0 + length (data_nodes data)]"
  by (simp add: layout_def Let_def map_create_eq)

lemma layout_links:
  "l_links (layout h0 data) =
     [length h0 + length (data_nodes data) ..<
      length h0 + length (data_nodes data) + length (data_links data)]"
  by (simp add: layout_def Let_def map_create_eq)

lemma layout_store:
  "l_store (layout h0 data) =
     fst (place_right
       (place_column (place_main (copies h0 data)
             (find (\<lambda>n. get own_type (copies h0 data) n = Some main_reservoir)
                (l_nodes (layout h0 data))) 0 0)
          (nodes_of_type (copies h0 data) inflow (l_nodes (layout h0 data))) 0
          (- HORIZONTAL_SPACING)
          (- ((of_nat (length (nodes_of_type (copies h0 data) inflow (l_nodes (layout h0 data)))) - 1)
                * NODE_SPACING) / 2))
       (nodes_of_type (copies h0 data) outflow (l_nodes (layout h0 data)))
       (nodes_of_type (copies h0 data) project (l_nodes (layout h0 data))))"
  by (simp add: layout_def Let_def map_create_eq)

lemma length_place_main: "length (place_main h mainNode x y) = length h"
  by (simp add: place_main_def length_set_fx length_set_fy split: option.splits)

lemma get_type_place_main: "get own_type (place_main h mainNode x y) b = get own_type h b"
  by (simp add: place_main_def get_type_set_fx get_type_set_fy split: option.splits)

lemma take_place_main:
  assumes "\<And>a. mainNode = Some a \<Longrightarrow> n \<le> a"
  shows "take n (place_main h mainNode x y) = take n h"
  using assms by (cases mainNode) (simp_all add: place_main_def take_set_fx take_set_fy)

lemma get_type_layout_store:
  "get own_type (l_store (layout h0 data)) b = get own_type (copies h0 data) b"
  by (simp add: layout_store get_type_place_right get_type_place_column get_type_place_main)

lemma nodes_of_type_layout_store:
  "nodes_of_type (l_store (layout h0 data)) t ns = nodes_of_type (copies h0 data) t ns"
  by (simp add: nodes_of_type_def get_type_layout_store)

text \<open>
  A property that the two position fields do not enter is the same before and after the
  layout, at every address.
\<close>

lemma layout_keeps:
  assumes "\<And>ob v. f (ob\<lparr>own_fx := v\<rparr>) = f ob" and "\<And>ob v. f (ob\<lparr>own_fy := v\<rparr>) = f ob"
  shows "f (l_store (layout h0 data) ! b) = f (copies h0 data ! b)"
proof -
  have sx: "f (set_fx h a v ! c) = f (h ! c)" for h a v c
    unfolding set_fx_def by (rule nth_update_keeps) (rule assms(1))
  have sy: "f (set_fy h a v ! c) = f (h ! c)" for h a v c
    unfolding set_fy_def by (rule nth_update_keeps) (rule assms(2))
  have pc: "f (place_column h ns i x startY ! c) = f (h ! c)" for h ns i x startY c
    by (induction ns arbitrary: h i) (simp_all add: sx sy)
  have pm: "f (place_main h mainNode x y ! c) = f (h ! c)" for h mainNode x y c
    by (simp add: place_main_def sx sy split: option.splits)
  have pr: "f (fst (place_right h outs projs) ! c) = f (h ! c)" for h outs projs c
    by (simp add: place_right_def Let_def pc)
  show ?thesis by (simp only: layout_store pr pc pm)
qed

text \<open>
  C9, as the claim states it, fails in its last part. The laid-out node 13 of
  \<^verbatim>\<open>mixedData\<close> has no label of its own and the caller's node 0 as prototype: its
  label is read from the caller's object, and changes when the caller changes that
  object after the pass.
\<close>

theorem layout_copy_aliases_caller_counterexample:
  "l_nodes mixed_layout ! 0 = 13
    \<and> proto (l_store mixed_layout ! 13) = Some 0
    \<and> own_label (l_store mixed_layout ! 13) = None
    \<and> get own_label (l_store mixed_layout) 13 = Some ''Main Reservoir''
    \<and> get own_label
         ((l_store mixed_layout)[0 := (l_store mixed_layout ! 0)\<lparr>own_label := Some ''Renamed''\<rparr>])
         13 = Some ''Renamed''"
  by code_simp

text \<open>
  C9, amended. The pass leaves every object of the caller's store as it was: the store
  after the layout, cut to the length of the store before it, is the store before it. The
  nodes and links the pass works on are the fresh addresses behind it; all assignments of
  \<^verbatim>\<open>fx\<close> and \<^verbatim>\<open>fy\<close> go to those. They are not independent of the caller's graph: each
  has the caller's node or link at the same index as its prototype and no \<^verbatim>\<open>id\<close>,
  \<^verbatim>\<open>label\<close>, \<^verbatim>\<open>type\<close>, \<^verbatim>\<open>source\<close> or \<^verbatim>\<open>target\<close> of its own, so these are read
  from the caller's objects.
\<close>

theorem layout_frame:
  "take (length h0) (l_store (layout h0 data)) = h0
    \<and> l_nodes (layout h0 data) = [length h0 ..< length h0 + length (data_nodes data)]
    \<and> l_links (layout h0 data) =
        [length h0 + length (data_nodes data) ..<
         length h0 + length (data_nodes data) + length (data_links data)]
    \<and> map (\<lambda>a. proto (l_store (layout h0 data) ! a)) (l_nodes (layout h0 data))
        = map Some (data_nodes data)
    \<and> map (\<lambda>a. proto (l_store (layout h0 data) ! a)) (l_links (layout h0 data))
        = map Some (data_links data)
    \<and> map (\<lambda>a. (own_id (l_store (layout h0 data) ! a), own_label (l_store (layout h0 data) ! a),
                 own_type (l_store (layout h0 data) ! a))) (l_nodes (layout h0 data))
        = map (\<lambda>d. (None, None, None)) (data_nodes data)
    \<and> map (\<lambda>a. (own_source (l_store (layout h0 data) ! a),
                 own_target (l_store (layout h0 data) ! a))) (l_links (layout h0 data))
        = map (\<lambda>d. (None, None)) (data_links data)"
proof -
  let ?L = "layout h0 data"
  have fresh: "length h0 \<le> a" if "a \<in> set (nodes_of_type (copies h0 data) t (l_nodes ?L))" for a t
    using that by (auto simp: nodes_of_type_def layout_nodes)
  have fresh_nodes: "length h0 \<le> a" if "a \<in> set (l_nodes ?L)" for a
    using that by (auto simp: layout_nodes)
  have fresh_main: "length h0 \<le> a"
    if "find (\<lambda>n. get own_type (copies h0 data) n = Some main_reservoir) (l_nodes ?L) = Some a" for a
    using that fresh_nodes by (auto simp: find_Some_iff)
  have "take (length h0) (l_store ?L) = take (length h0) (copies h0 data)"
    unfolding layout_store
    by (simp only: take_place_right [OF fresh fresh] take_place_column [OF fresh]
        take_place_main [OF fresh_main])
  then have frame: "take (length h0) (l_store ?L) = h0"
    by simp
  have proto: "proto (l_store ?L ! b) = proto (copies h0 data ! b)" for b
    by (rule layout_keeps) simp_all
  have own: "own_id (l_store ?L ! b) = own_id (copies h0 data ! b)"
    "own_label (l_store ?L ! b) = own_label (copies h0 data ! b)"
    "own_type (l_store ?L ! b) = own_type (copies h0 data ! b)"
    "own_source (l_store ?L ! b) = own_source (copies h0 data ! b)"
    "own_target (l_store ?L ! b) = own_target (copies h0 data ! b)" for b
    by (rule layout_keeps, simp, simp)+
  have p1: "map (\<lambda>a. proto (l_store ?L ! a)) (l_nodes ?L) = map Some (data_nodes data)"
    by (rule nth_equalityI)
       (simp_all add: layout_nodes proto nth_append created_def)
  have p2: "map (\<lambda>a. proto (l_store ?L ! a)) (l_links ?L) = map Some (data_links data)"
    by (rule nth_equalityI)
       (simp_all add: layout_links proto nth_append created_def)
  have o1: "map (\<lambda>a. (own_id (l_store ?L ! a), own_label (l_store ?L ! a),
                 own_type (l_store ?L ! a))) (l_nodes ?L)
        = map (\<lambda>d. (None, None, None)) (data_nodes data)"
    by (rule nth_equalityI)
       (simp_all add: layout_nodes own nth_append created_def)
  have o2: "map (\<lambda>a. (own_source (l_store ?L ! a), own_target (l_store ?L ! a))) (l_links ?L)
        = map (\<lambda>d. (None, None)) (data_links data)"
    by (rule nth_equalityI)
       (simp_all add: layout_links own nth_append created_def)
  show ?thesis using frame p1 p2 o1 o2 layout_nodes layout_links by blast
qed

lemma nodes_of_type_disjoint:
  assumes "a \<in> set (nodes_of_type h t ns)" and "t \<noteq> t1"
  shows "a \<notin> set (nodes_of_type h t1 ns)"
  using assms by (auto simp: nodes_of_type_def)

text \<open>
  C2, amended. When the graph has outflows and projects, both groups are on the column
  \<open>x = HORIZONTAL_SPACING\<close>. The outflows end at \<open>y = - MAIN_RECT_HEIGHT / 4\<close>: the
  \<open>i\<close>-th of \<open>N\<close> is at \<open>- MAIN_RECT_HEIGHT / 4 - (N - 1) * NODE_SPACING + i * NODE_SPACING\<close>.
  The projects start at \<open>y = MAIN_RECT_HEIGHT / 4\<close>: the \<open>j\<close>-th is at
  \<open>MAIN_RECT_HEIGHT / 4 + j * NODE_SPACING\<close>. Every outflow is strictly above (has a
  smaller \<open>y\<close> than) every project, whatever the two counts.
\<close>

theorem right_column_two_groups:
  assumes "L = layout h0 data"
    and "outs = nodes_of_type (l_store L) outflow (l_nodes L)"
    and "projs = nodes_of_type (l_store L) project (l_nodes L)"
    and "outs \<noteq> []" and "projs \<noteq> []"
  shows "(\<forall>i<length outs.
            get own_fx (l_store L) (outs ! i) = Some HORIZONTAL_SPACING
          \<and> get own_fy (l_store L) (outs ! i) =
              Some (- (MAIN_RECT_HEIGHT / 4) - (of_nat (length outs) - 1) * NODE_SPACING
                    + of_nat i * NODE_SPACING))
       \<and> (\<forall>j<length projs.
            get own_fx (l_store L) (projs ! j) = Some HORIZONTAL_SPACING
          \<and> get own_fy (l_store L) (projs ! j) =
              Some (MAIN_RECT_HEIGHT / 4 + of_nat j * NODE_SPACING))
       \<and> (\<forall>i<length outs. \<forall>j<length projs. \<exists>yo yp.
            get own_fy (l_store L) (outs ! i) = Some yo
          \<and> get own_fy (l_store L) (projs ! j) = Some yp \<and> yo < yp)"
proof -
  let ?ns = "l_nodes (layout h0 data)"
  let ?h1 = "copies h0 data"
  let ?oy = "- (MAIN_RECT_HEIGHT / 4) - (of_nat (length outs) - 1) * NODE_SPACING"
  define h3 where "h3 = place_column
       (place_main ?h1 (find (\<lambda>n. get own_type ?h1 n = Some main_reservoir) ?ns) 0 0)
       (nodes_of_type ?h1 inflow ?ns) 0 (- HORIZONTAL_SPACING)
       (- ((of_nat (length (nodes_of_type ?h1 inflow ?ns)) - 1) * NODE_SPACING) / 2)"
  define h4 where "h4 = place_column h3 outs 0 HORIZONTAL_SPACING ?oy"
  have outs: "outs = nodes_of_type ?h1 outflow ?ns"
    and projs: "projs = nodes_of_type ?h1 project ?ns"
    using assms(1,2,3) by (simp_all add: nodes_of_type_layout_store)
  have H: "l_store L = place_column h4 projs 0 HORIZONTAL_SPACING (MAIN_RECT_HEIGHT / 4)"
    unfolding assms(1) layout_store outs [symmetric] projs [symmetric] h3_def [symmetric] h4_def
    by (rule place_right_both [OF assms(4,5)])
  have len3: "length h3 = length h0 + length (data_nodes data) + length (data_links data)"
    by (simp add: h3_def length_place_column length_place_main)
  have len4: "length h4 = length h3" by (simp add: h4_def length_place_column)
  have lenH: "length (l_store L) = length h3" by (simp add: H length_place_column len4)
  have d_outs: "distinct outs" and d_projs: "distinct projs"
    by (simp_all add: outs projs nodes_of_type_def layout_nodes)
  have in_outs: "outs ! i < length h3" if "i < length outs" for i
  proof -
    have "outs ! i \<in> set outs" using that by simp
    then have "outs ! i \<in> set ?ns" by (auto simp: outs nodes_of_type_def)
    then show ?thesis by (simp add: layout_nodes len3)
  qed
  have in_projs: "projs ! j < length h3" if "j < length projs" for j
  proof -
    have "projs ! j \<in> set projs" using that by simp
    then have "projs ! j \<in> set ?ns" by (auto simp: projs nodes_of_type_def)
    then show ?thesis by (simp add: layout_nodes len3)
  qed
  have out_pos: "get own_fx (l_store L) (outs ! i) = Some HORIZONTAL_SPACING
      \<and> get own_fy (l_store L) (outs ! i) = Some (?oy + of_nat i * NODE_SPACING)"
    if i: "i < length outs" for i
  proof -
    have "outs ! i \<in> set outs" using i by simp
    then have "outs ! i \<notin> set projs"
      unfolding outs projs by (rule nodes_of_type_disjoint) simp
    then have same: "l_store L ! (outs ! i) = h4 ! (outs ! i)"
      unfolding H by (rule nth_place_column_other)
    have "own_fx (h4 ! (outs ! i)) = Some HORIZONTAL_SPACING
        \<and> own_fy (h4 ! (outs ! i)) = Some (?oy + of_nat (0 + i) * NODE_SPACING)"
      unfolding h4_def by (rule placed_column [OF d_outs i in_outs [OF i]])
    then show ?thesis
      using in_outs [OF i] by (simp add: get_own lenH same)
  qed
  have proj_pos: "get own_fx (l_store L) (projs ! j) = Some HORIZONTAL_SPACING
      \<and> get own_fy (l_store L) (projs ! j) = Some (MAIN_RECT_HEIGHT / 4 + of_nat j * NODE_SPACING)"
    if j: "j < length projs" for j
  proof -
    have "projs ! j < length h4" using in_projs [OF j] by (simp add: len4)
    then have "own_fx (l_store L ! (projs ! j)) = Some HORIZONTAL_SPACING
        \<and> own_fy (l_store L ! (projs ! j)) = Some (MAIN_RECT_HEIGHT / 4 + of_nat (0 + j) * NODE_SPACING)"
      unfolding H by (rule placed_column [OF d_projs j])
    then show ?thesis
      using in_projs [OF j] by (simp add: get_own lenH)
  qed
  have above: "?oy + of_nat i * NODE_SPACING < MAIN_RECT_HEIGHT / 4 + of_nat j * NODE_SPACING"
    if i: "i < length outs" for i j
  proof -
    have "Suc i \<le> length outs" using i by simp
    then have "(of_nat (Suc i) :: rat) \<le> of_nat (length outs)"
      by (simp only: of_nat_le_iff)
    then have "of_nat i + (1::rat) \<le> of_nat (length outs)" by simp
    then have "(of_nat i - (of_nat (length outs) - 1)) * (40::rat) \<le> 0"
      by (simp add: mult_le_0_iff)
    moreover have "0 \<le> of_nat j * (40::rat)" by simp
    ultimately show ?thesis
      by (simp add: MAIN_RECT_HEIGHT_def NODE_SPACING_def algebra_simps)
  qed
  show ?thesis
  proof (intro conjI allI impI)
    fix i j
    assume i: "i < length outs" and j: "j < length projs"
    show "\<exists>yo yp. get own_fy (l_store L) (outs ! i) = Some yo
        \<and> get own_fy (l_store L) (projs ! j) = Some yp \<and> yo < yp"
      using out_pos [OF i] proj_pos [OF j] above [OF i, of j] by blast
  qed (use out_pos proj_pos in blast)+
qed

theorem right_column_two_groups_witness:
  "nodes_of_type (l_store mixed_layout) outflow (l_nodes mixed_layout) = [16, 17]
    \<and> nodes_of_type (l_store mixed_layout) project (l_nodes mixed_layout) = [18, 19]
    \<and> get own_fx (l_store mixed_layout) 16 = Some 220
    \<and> get own_fy (l_store mixed_layout) 16 = Some (- 60)
    \<and> get own_fy (l_store mixed_layout) 17 = Some (- 20)
    \<and> get own_fx (l_store mixed_layout) 19 = Some 220
    \<and> get own_fy (l_store mixed_layout) 18 = Some 20
    \<and> get own_fy (l_store mixed_layout) 19 = Some 60"
proof -
  have outs: "nodes_of_type (l_store mixed_layout) outflow (l_nodes mixed_layout) = [16, 17]"
    by code_simp
  have projs: "nodes_of_type (l_store mixed_layout) project (l_nodes mixed_layout) = [18, 19]"
    by code_simp
  have ne: "[16, 17] \<noteq> ([] :: nat list)" "[18, 19] \<noteq> ([] :: nat list)"
    by simp_all
  note t = right_column_two_groups [OF mixed_layout_def outs [symmetric] projs [symmetric] ne]
  from t have o: "i < 2 \<Longrightarrow>
      get own_fx (l_store mixed_layout) ([16, 17] ! i) = Some HORIZONTAL_SPACING
    \<and> get own_fy (l_store mixed_layout) ([16, 17] ! i) =
        Some (- (MAIN_RECT_HEIGHT / 4) - (of_nat (length [16::nat, 17]) - 1) * NODE_SPACING
              + of_nat i * NODE_SPACING)" for i
    by simp
  from t have p: "j < 2 \<Longrightarrow>
      get own_fx (l_store mixed_layout) ([18, 19] ! j) = Some HORIZONTAL_SPACING
    \<and> get own_fy (l_store mixed_layout) ([18, 19] ! j) =
        Some (MAIN_RECT_HEIGHT / 4 + of_nat j * NODE_SPACING)" for j
    by simp
  show ?thesis
    using outs projs o [of 0] o [of 1] p [of 0] p [of 1]
    by (simp add: HORIZONTAL_SPACING_def MAIN_RECT_HEIGHT_def NODE_SPACING_def)
qed

text \<open>
  C2, as the claim states it, fails. In \<^verbatim>\<open>mixedData\<close> both lists have two nodes. Centred
  on the anchor, the first outflow would be at
  \<open>- MAIN_RECT_HEIGHT / 4 - (2 - 1) * NODE_SPACING / 2 = - 40\<close>; the layout puts it at
  \<open>- 60\<close>.
\<close>

theorem right_column_centred_counterexample:
  "nodes_of_type (l_store mixed_layout) outflow (l_nodes mixed_layout) = [16, 17]
    \<and> nodes_of_type (l_store mixed_layout) project (l_nodes mixed_layout) = [18, 19]
    \<and> get own_fy (l_store mixed_layout) 16 = Some (- 60)
    \<and> - (MAIN_RECT_HEIGHT / 4) + (- ((2 - 1) * NODE_SPACING) / 2 + 0 * NODE_SPACING) = - 40"
  by code_simp

text \<open>
  C3. For a hub with six outflows and nothing else, the view box ends at \<open>maxY = 80\<close>,
  and the sixth outflow is placed at \<open>y = 100\<close>, outside it: with no project,
  \<^verbatim>\<open>maxY\<close> is computed from \<^verbatim>\<open>projectStartY\<close> and the inflows only.
\<close>

theorem outflow_outside_bounds:
  "l_nodes six_outflows_layout ! 6 = 19
    \<and> get own_type (l_store six_outflows_layout) 19 = Some outflow
    \<and> get own_fy (l_store six_outflows_layout) 19 = Some 100
    \<and> l_maxY six_outflows_layout = 80
    \<and> l_maxY six_outflows_layout < 100"
  by code_simp

section \<open>Connector properties\<close>

lemma draw_link_resolved:
  assumes "find (\<lambda>n. get own_id h n = get own_source h link) nodes = Some s"
    and "find (\<lambda>n. get own_id h n = get own_target h link) nodes = Some t"
    and "get own_type h s = Some st"
    and "get own_type h t = Some tt"
  shows "draw_link h nodes link = Inr (Some
     \<lparr>path_points =
        [(if st = main_reservoir then num_add (get own_fx h s) (MAIN_RECT_WIDTH / 2)
          else get own_fx h s,
          if st = main_reservoir
          then (if tt = outflow then num_add (get own_fy h s) (- (MAIN_RECT_HEIGHT / 4))
                else if tt = project then num_add (get own_fy h s) (MAIN_RECT_HEIGHT / 4)
                else get own_fy h s)
          else get own_fy h s),
         (num_mid (if st = main_reservoir then num_add (get own_fx h s) (MAIN_RECT_WIDTH / 2)
                   else get own_fx h s) (get own_fx h t),
          if st = main_reservoir
          then (if tt = outflow then num_add (get own_fy h s) (- (MAIN_RECT_HEIGHT / 4))
                else if tt = project then num_add (get own_fy h s) (MAIN_RECT_HEIGHT / 4)
                else get own_fy h s)
          else get own_fy h s),
         (num_mid (if st = main_reservoir then num_add (get own_fx h s) (MAIN_RECT_WIDTH / 2)
                   else get own_fx h s) (get own_fx h t),
          get own_fy h t),
         (get own_fx h t, get own_fy h t)],
      path_stroke = stroke (COLOR_MAP (if tt = main_reservoir then st else tt))\<rparr>)"
  using assms by (cases "st = inflow") (simp_all add: draw_link_def Let_def)

text \<open>
  C6. For a link whose ends resolve to positioned nodes, the path has exactly the four
  points \<open>start\<close>, \<open>(midX, start.y)\<close>, \<open>(midX, end.y)\<close>, \<open>end\<close> with
  \<open>midX = (start.x + end.x) / 2\<close>: the first and third segments keep \<open>y\<close>, the second
  keeps \<open>x\<close>, whether or not the ends share a coordinate. The start is the source's
  position, moved to the hub's right edge and upper or lower quarter when the source is
  the hub.
\<close>

theorem connector_four_points:
  assumes "find (\<lambda>n. get own_id h n = get own_source h link) nodes = Some s"
    and "find (\<lambda>n. get own_id h n = get own_target h link) nodes = Some t"
    and "get own_type h s = Some st"
    and "get own_type h t = Some tt"
    and "get own_fx h s = Some sx" and "get own_fy h s = Some sy"
    and "get own_fx h t = Some ex" and "get own_fy h t = Some ey"
    and "x1 = (if st = main_reservoir then sx + MAIN_RECT_WIDTH / 2 else sx)"
    and "y1 = (if st = main_reservoir
               then (if tt = outflow then sy - MAIN_RECT_HEIGHT / 4
                     else if tt = project then sy + MAIN_RECT_HEIGHT / 4 else sy)
               else sy)"
  shows "\<exists>p. draw_link h nodes link = Inr (Some p)
      \<and> path_points p =
          [(Some x1, Some y1), (Some ((x1 + ex) / 2), Some y1),
           (Some ((x1 + ex) / 2), Some ey), (Some ex, Some ey)]
      \<and> length (path_points p) = 4
      \<and> snd (path_points p ! 0) = snd (path_points p ! 1)
      \<and> fst (path_points p ! 1) = fst (path_points p ! 2)
      \<and> snd (path_points p ! 2) = snd (path_points p ! 3)"
  unfolding draw_link_resolved [OF assms(1-4)]
  using assms(5-10) by (simp add: num_add_def num_mid_def)

theorem connector_four_points_witness:
  "find (\<lambda>n. get own_id (l_store mixed_layout) n = get own_source (l_store mixed_layout) 22)
      (l_nodes mixed_layout) = Some 13
    \<and> find (\<lambda>n. get own_id (l_store mixed_layout) n = get own_target (l_store mixed_layout) 22)
      (l_nodes mixed_layout) = Some 16
    \<and> get own_type (l_store mixed_layout) 13 = Some main_reservoir
    \<and> get own_type (l_store mixed_layout) 16 = Some outflow
    \<and> get own_fx (l_store mixed_layout) 13 = Some 0
    \<and> get own_fy (l_store mixed_layout) 13 = Some 0
    \<and> get own_fx (l_store mixed_layout) 16 = Some 220
    \<and> get own_fy (l_store mixed_layout) 16 = Some (- 60)
    \<and> (\<exists>p. draw_link (l_store mixed_layout) (l_nodes mixed_layout) 22 = Inr (Some p)
         \<and> path_points p =
             [(Some 90, Some (- 20)), (Some 155, Some (- 20)),
              (Some 155, Some (- 60)), (Some 220, Some (- 60))])"
proof -
  let ?h = "l_store mixed_layout" and ?ns = "l_nodes mixed_layout"
  have s: "find (\<lambda>n. get own_id ?h n = get own_source ?h 22) ?ns = Some 13" by code_simp
  have t: "find (\<lambda>n. get own_id ?h n = get own_target ?h 22) ?ns = Some 16" by code_simp
  have st: "get own_type ?h 13 = Some main_reservoir" by code_simp
  have tt: "get own_type ?h 16 = Some outflow" by code_simp
  have sx: "get own_fx ?h 13 = Some 0" by code_simp
  have sy: "get own_fy ?h 13 = Some 0" by code_simp
  have ex: "get own_fx ?h 16 = Some 220" by code_simp
  have ey: "get own_fy ?h 16 = Some (- 60)" by code_simp
  have "\<exists>p. draw_link ?h ?ns 22 = Inr (Some p)
      \<and> path_points p =
          [(Some 90, Some (- 20)), (Some 155, Some (- 20)),
           (Some 155, Some (- 60)), (Some 220, Some (- 60))]"
  proof -
    from connector_four_points [OF s t st tt sx sy ex ey refl refl]
    obtain p where "draw_link ?h ?ns 22 = Inr (Some p)"
      and "path_points p =
          [(Some 90, Some (- 20)), (Some 155, Some (- 20)),
           (Some 155, Some (- 60)), (Some 220, Some (- 60))]"
      by (auto simp: MAIN_RECT_WIDTH_def MAIN_RECT_HEIGHT_def)
    then show ?thesis by blast
  qed
  with s t st tt sx sy ex ey show ?thesis by (simp only: simp_thms)
qed

text \<open>
  C7. The path of a resolvable link has the stroke colour of the target's type, except
  that a link into the hub has the stroke colour of the source's type.
\<close>

theorem link_colour:
  assumes "find (\<lambda>n. get own_id h n = get own_source h link) nodes = Some s"
    and "find (\<lambda>n. get own_id h n = get own_target h link) nodes = Some t"
    and "get own_type h s = Some st"
    and "get own_type h t = Some tt"
  shows "\<exists>p. draw_link h nodes link = Inr (Some p)
      \<and> path_stroke p = stroke (COLOR_MAP (if tt = main_reservoir then st else tt))"
  unfolding draw_link_resolved [OF assms] by simp

theorem link_colour_witness:
  "find (\<lambda>n. get own_id (l_store mixed_layout) n = get own_source (l_store mixed_layout) 20)
      (l_nodes mixed_layout) = Some 14
    \<and> find (\<lambda>n. get own_id (l_store mixed_layout) n = get own_target (l_store mixed_layout) 20)
      (l_nodes mixed_layout) = Some 13
    \<and> get own_type (l_store mixed_layout) 14 = Some inflow
    \<and> get own_type (l_store mixed_layout) 13 = Some main_reservoir
    \<and> (\<exists>p. draw_link (l_store mixed_layout) (l_nodes mixed_layout) 20 = Inr (Some p)
         \<and> path_stroke p = ''#D67A97'')"
proof -
  let ?h = "l_store mixed_layout" and ?ns = "l_nodes mixed_layout"
  have s: "find (\<lambda>n. get own_id ?h n = get own_source ?h 20) ?ns = Some 14" by code_simp
  have t: "find (\<lambda>n. get own_id ?h n = get own_target ?h 20) ?ns = Some 13" by code_simp
  have st: "get own_type ?h 14 = Some inflow" by code_simp
  have tt: "get own_type ?h 13 = Some main_reservoir" by code_simp
  have "\<exists>p. draw_link ?h ?ns 20 = Inr (Some p) \<and> path_stroke p = ''#D67A97''"
    using link_colour [OF s t st tt] by simp
  with s t st tt show ?thesis by (simp only: simp_thms)
qed

lemma draw_link_dangling:
  assumes "find (\<lambda>n. get own_id h n = get own_source h link) nodes = None
         \<or> find (\<lambda>n. get own_id h n = get own_target h link) nodes = None"
  shows "draw_link h nodes link = Inr None"
  using assms by (auto simp: draw_link_def split: option.splits)

lemma links_forEach_skip:
  assumes "draw_link h nodes link = Inr None"
  shows "links_forEach h nodes (before @ link # after) linkGroup
       = links_forEach h nodes (before @ after) linkGroup"
  using assms
  by (induction before arbitrary: linkGroup) (simp_all split: sum.splits option.splits)

text \<open>
  C8. A link whose source or target is the id of no node adds no path and raises no
  error, and the loop over the links gives what it gives without that link: the same
  paths for the other links, or the same error.
\<close>

theorem dangling_link_skipped:
  assumes "find (\<lambda>n. get own_id h n = get own_source h link) nodes = None
         \<or> find (\<lambda>n. get own_id h n = get own_target h link) nodes = None"
  shows "draw_link h nodes link = Inr None
      \<and> links_forEach h nodes [link] linkGroup = Inr linkGroup
      \<and> links_forEach h nodes (before @ link # after) linkGroup
          = links_forEach h nodes (before @ after) linkGroup"
proof -
  have d: "draw_link h nodes link = Inr None"
    by (rule draw_link_dangling [OF assms])
  then show ?thesis by (simp add: links_forEach_skip)
qed

theorem dangling_link_skipped_witness:
  "find (\<lambda>n. get own_id (l_store ghost_layout) n = get own_source (l_store ghost_layout) 6)
      (l_nodes ghost_layout) = None
    \<and> l_links ghost_layout = [6, 7]
    \<and> draw_link (l_store ghost_layout) (l_nodes ghost_layout) 6 = Inr None
    \<and> links_forEach (l_store ghost_layout) (l_nodes ghost_layout) [6, 7] []
        = links_forEach (l_store ghost_layout) (l_nodes ghost_layout) [7] []
    \<and> links_forEach (l_store ghost_layout) (l_nodes ghost_layout) [7] []
        = Inr [\<lparr>path_points = [(Some (- 220), Some 0), (Some (- 110), Some 0),
                                (Some (- 110), Some 0), (Some 0, Some 0)],
                path_stroke = ''#D67A97''\<rparr>]"
proof -
  let ?h = "l_store ghost_layout" and ?ns = "l_nodes ghost_layout"
  have s: "find (\<lambda>n. get own_id ?h n = get own_source ?h 6) ?ns = None" by code_simp
  have l: "l_links ghost_layout = [6, 7]" by code_simp
  have r: "links_forEach ?h ?ns [7] []
      = Inr [\<lparr>path_points = [(Some (- 220), Some 0), (Some (- 110), Some 0),
                              (Some (- 110), Some 0), (Some 0, Some 0)],
              path_stroke = ''#D67A97''\<rparr>]"
    by code_simp
  have "draw_link ?h ?ns 6 = Inr None
      \<and> links_forEach ?h ?ns [6, 7] [] = links_forEach ?h ?ns [7] []"
    using dangling_link_skipped [OF disjI1 [OF s], of "[]" "[]" "[7]"] by simp
  with s l r show ?thesis by (simp only: simp_thms)
qed

end
